theory Spec2Isabelle
  imports Main "HOL-Library.Word"
begin

section \<open>Go values\<close>

text \<open>
  The counters of \<^verbatim>\<open>pkg/builder/file_pool_stats_build_executor.go\<close> are Go \<^verbatim>\<open>uint64\<close>
  values: addition and subtraction wrap around modulo \<open>2 ^ 64\<close> and \<open><\<close> compares the
  unsigned values. Offsets and lengths are \<^verbatim>\<open>int64\<close>; the transfer counts returned by
  \<^verbatim>\<open>ReadAt\<close> and \<^verbatim>\<open>WriteAt\<close> are Go \<^verbatim>\<open>int\<close>, taken here at its 64-bit width (the width
  on the amd64 and arm64 workers). A signed value is carried as its two's complement
  pattern and read with \<open>sint\<close>: the order on words is the unsigned one, so a signed
  comparison such as \<^verbatim>\<open>n > 0\<close> is written \<open>0 < sint n\<close>.
\<close>

type_synonym uint64 = "64 word"
type_synonym int64 = "64 word"
type_synonym go_int = "64 word"
type_synonym byte = "8 word"

text \<open>The conversion \<^verbatim>\<open>uint64(x)\<close> of a signed value: its value modulo \<open>2 ^ 64\<close>.\<close>

definition uint64_of :: "64 word \<Rightarrow> uint64" where
  "uint64_of x = word_of_int (sint x)"

text \<open>
  A Go \<^verbatim>\<open>error\<close> value, as a gRPC status: a code and a message. \<open>None\<close> of type
  \<open>error option\<close> is the \<^verbatim>\<open>nil\<close> error.
\<close>

datatype error = StatusError int string

text \<open>
  A run-time panic. Calling a method of a \<^verbatim>\<open>nil\<close> interface value or locking the mutex of
  a \<^verbatim>\<open>nil\<close> pool pointer is a nil pointer dereference. \<open>DanglingReference\<close> is the model's
  answer to a handle reference that names no handle of the heap; Go has no such
  references.
\<close>

datatype panic = NilPointerDereference | DanglingReference

section \<open>The wrapped interfaces\<close>

text \<open>
  \<^verbatim>\<open>re_filesystem.FilePool\<close> and \<^verbatim>\<open>filesystem.FileReadWriter\<close> are interfaces whose
  implementations live outside the file. They are a parameter of the model: a record of
  functions over a state \<open>'w\<close> of the outside world, with \<open>'p\<close> the wrapped pool and \<open>'h\<close>
  a wrapped file. Every call returns the new world beside the Go results. \<^verbatim>\<open>ReadAt\<close>
  fills the caller's buffer in place, so it also returns the buffer's new contents.
  An interface result of \<open>None\<close> is \<^verbatim>\<open>nil\<close>.
\<close>

record ('w, 'p, 'h) inner =
  base_NewFile :: "'w \<Rightarrow> 'p \<Rightarrow> 'w \<times> ('h option \<times> error option)"
  inner_ReadAt :: "'w \<Rightarrow> 'h \<Rightarrow> byte list \<Rightarrow> int64 \<Rightarrow> 'w \<times> (byte list \<times> go_int \<times> error option)"
  inner_WriteAt :: "'w \<Rightarrow> 'h \<Rightarrow> byte list \<Rightarrow> int64 \<Rightarrow> 'w \<times> (go_int \<times> error option)"
  inner_Truncate :: "'w \<Rightarrow> 'h \<Rightarrow> int64 \<Rightarrow> 'w \<times> error option"
  inner_Close :: "'w \<Rightarrow> 'h \<Rightarrow> 'w \<times> error option"

section \<open>Data\<close>

text \<open>
  The protobuf message \<^verbatim>\<open>resourceusage.FilePoolResourceUsage\<close>, with the eight fields the
  file uses. Its declaration is generated code outside the file. The file compares or
  adds the two peaks and the two byte totals with \<^verbatim>\<open>uint64\<close> values, which in Go makes
  them \<^verbatim>\<open>uint64\<close>; the four counts, which it only increments, are \<^verbatim>\<open>uint64\<close> here too.
\<close>

record FilePoolResourceUsage =
  FilesCreated :: uint64
  FilesCountPeak :: uint64
  FilesSizeBytesPeak :: uint64
  ReadsCount :: uint64
  ReadsSizeBytes :: uint64
  WritesCount :: uint64
  WritesSizeBytes :: uint64
  TruncatesCount :: uint64

text \<open>
  \<^verbatim>\<open>statsCollectingFilePool\<close>. The mutex \<^verbatim>\<open>lock\<close> has no field: the model runs one
  operation at a time, each critical section as a whole.
\<close>

record 'p statsCollectingFilePool =
  base :: 'p
  stats :: FilePoolResourceUsage
  totalSize :: uint64
  totalFiles :: uint64

text \<open>
  \<^verbatim>\<open>statsCollectingFileReadWriter\<close>. The embedded interface value and the pool pointer
  are \<open>None\<close> when \<^verbatim>\<open>nil\<close>. One pool is modelled, so a pool pointer that is set carries no
  address. The field \<^verbatim>\<open>size\<close> is \<open>size'\<close> here.
\<close>

record 'h statsCollectingFileReadWriter =
  FileReadWriter :: "'h option"
  pool :: "unit option"
  size' :: uint64

text \<open>
  The heap: the outside world, the pool object, and the handles the pool has returned,
  in creation order. A handle is referred to by its position in \<open>handles\<close>.
\<close>

record ('w, 'p, 'h) heap =
  world :: 'w
  fp :: "'p statsCollectingFilePool"
  handles :: "'h statsCollectingFileReadWriter list"

definition zero_usage :: FilePoolResourceUsage where
  "zero_usage = \<lparr>FilesCreated = 0, FilesCountPeak = 0, FilesSizeBytesPeak = 0,
     ReadsCount = 0, ReadsSizeBytes = 0, WritesCount = 0, WritesSizeBytes = 0,
     TruncatesCount = 0\<rparr>"

text \<open>
  The heap right after \<^verbatim>\<open>fp := statsCollectingFilePool{base: filePool}\<close>: every other
  field has Go's zero value and no handle exists.
\<close>

definition new_pool :: "'w \<Rightarrow> 'p \<Rightarrow> ('w, 'p, 'h) heap" where
  "new_pool w filePool =
     \<lparr>world = w,
      fp = \<lparr>base = filePool, stats = zero_usage, totalSize = 0, totalFiles = 0\<rparr>,
      handles = []\<rparr>"

section \<open>The pool and its handles\<close>

text \<open>\<^verbatim>\<open>statsCollectingFilePool.NewFile\<close>: the result is the new handle's reference and the error.\<close>

definition NewFile ::
  "('w, 'p, 'h) inner \<Rightarrow> ('w, 'p, 'h) heap \<Rightarrow> ('w, 'p, 'h) heap \<times> (nat option \<times> error option)"
where
  "NewFile I s =
     (case base_NewFile I (world s) (base (fp s)) of (w', f, err) \<Rightarrow>
        if err \<noteq> None then (s\<lparr>world := w'\<rparr>, (None, err))
        else
          let st = stats (fp s);
              st = st\<lparr>FilesCreated := FilesCreated st + 1\<rparr>;
              tf = totalFiles (fp s) + 1;
              st = (if FilesCountPeak st < tf then st\<lparr>FilesCountPeak := tf\<rparr> else st)
          in (s\<lparr>world := w',
                 fp := (fp s)\<lparr>stats := st, totalFiles := tf\<rparr>,
                 handles := handles s @ [\<lparr>FileReadWriter = f, pool = Some (), size' = 0\<rparr>]\<rparr>,
              (Some (length (handles s)), None)))"

text \<open>\<^verbatim>\<open>updateSizeLocked\<close>, on the handle at position \<open>f\<close>.\<close>

definition updateSizeLocked :: "nat \<Rightarrow> uint64 \<Rightarrow> ('w, 'p, 'h) heap \<Rightarrow> ('w, 'p, 'h) heap" where
  "updateSizeLocked f newSize s =
     (let h = handles s ! f;
          ts = totalSize (fp s) - size' h;
          h = h\<lparr>size' := newSize\<rparr>;
          ts = ts + size' h;
          st = stats (fp s);
          st = (if FilesSizeBytesPeak st < ts then st\<lparr>FilesSizeBytesPeak := ts\<rparr> else st)
      in s\<lparr>fp := (fp s)\<lparr>stats := st, totalSize := ts\<rparr>, handles := (handles s)[f := h]\<rparr>)"

definition ReadAt ::
  "('w, 'p, 'h) inner \<Rightarrow> ('w, 'p, 'h) heap \<Rightarrow> nat \<Rightarrow> byte list \<Rightarrow> int64 \<Rightarrow>
     panic + ('w, 'p, 'h) heap \<times> (byte list \<times> go_int \<times> error option)"
where
  "ReadAt I s f p off =
     (if length (handles s) \<le> f then Inl DanglingReference
      else case FileReadWriter (handles s ! f) of
        None \<Rightarrow> Inl NilPointerDereference
      | Some g \<Rightarrow>
          (case inner_ReadAt I (world s) g p off of (w', p', n, err) \<Rightarrow>
             (case pool (handles s ! f) of
                None \<Rightarrow> Inl NilPointerDereference
              | Some _ \<Rightarrow>
                  let st = stats (fp s);
                      st = st\<lparr>ReadsCount := ReadsCount st + 1\<rparr>;
                      st = st\<lparr>ReadsSizeBytes := ReadsSizeBytes st + uint64_of n\<rparr>
                  in Inr (s\<lparr>world := w', fp := (fp s)\<lparr>stats := st\<rparr>\<rparr>, (p', n, err)))))"

definition WriteAt ::
  "('w, 'p, 'h) inner \<Rightarrow> ('w, 'p, 'h) heap \<Rightarrow> nat \<Rightarrow> byte list \<Rightarrow> int64 \<Rightarrow>
     panic + ('w, 'p, 'h) heap \<times> (go_int \<times> error option)"
where
  "WriteAt I s f p off =
     (if length (handles s) \<le> f then Inl DanglingReference
      else case FileReadWriter (handles s ! f) of
        None \<Rightarrow> Inl NilPointerDereference
      | Some g \<Rightarrow>
          (case inner_WriteAt I (world s) g p off of (w', n, err) \<Rightarrow>
             (case pool (handles s ! f) of
                None \<Rightarrow> Inl NilPointerDereference
              | Some _ \<Rightarrow>
                  let st = stats (fp s);
                      st = st\<lparr>WritesCount := WritesCount st + 1\<rparr>;
                      st = st\<lparr>WritesSizeBytes := WritesSizeBytes st + uint64_of n\<rparr>;
                      s1 = s\<lparr>world := w', fp := (fp s)\<lparr>stats := st\<rparr>\<rparr>;
                      newSize = uint64_of off + uint64_of n;
                      s2 = (if 0 < sint n \<and> newSize > size' (handles s ! f)
                            then updateSizeLocked f newSize s1 else s1)
                  in Inr (s2, (n, err)))))"

definition Truncate ::
  "('w, 'p, 'h) inner \<Rightarrow> ('w, 'p, 'h) heap \<Rightarrow> nat \<Rightarrow> int64 \<Rightarrow>
     panic + ('w, 'p, 'h) heap \<times> error option"
where
  "Truncate I s f len =
     (if length (handles s) \<le> f then Inl DanglingReference
      else case FileReadWriter (handles s ! f) of
        None \<Rightarrow> Inl NilPointerDereference
      | Some g \<Rightarrow>
          (case inner_Truncate I (world s) g len of (w', err) \<Rightarrow>
             (case pool (handles s ! f) of
                None \<Rightarrow> Inl NilPointerDereference
              | Some _ \<Rightarrow>
                  let st = stats (fp s);
                      st = st\<lparr>TruncatesCount := TruncatesCount st + 1\<rparr>;
                      s1 = s\<lparr>world := w', fp := (fp s)\<lparr>stats := st\<rparr>\<rparr>;
                      s2 = (if err = None then updateSizeLocked f (uint64_of len) s1 else s1)
                  in Inr (s2, err))))"

definition Close ::
  "('w, 'p, 'h) inner \<Rightarrow> ('w, 'p, 'h) heap \<Rightarrow> nat \<Rightarrow> panic + ('w, 'p, 'h) heap \<times> error option"
where
  "Close I s f =
     (if length (handles s) \<le> f then Inl DanglingReference
      else case FileReadWriter (handles s ! f) of
        None \<Rightarrow> Inl NilPointerDereference
      | Some g \<Rightarrow>
          (case inner_Close I (world s) g of (w', err) \<Rightarrow>
             (case pool (handles s ! f) of
                None \<Rightarrow> Inl NilPointerDereference
              | Some _ \<Rightarrow>
                  let h = (handles s ! f)\<lparr>FileReadWriter := None\<rparr>;
                      tf = totalFiles (fp s) - 1;
                      ts = totalSize (fp s) - size' h;
                      h = h\<lparr>pool := None\<rparr>
                  in Inr (s\<lparr>world := w',
                             fp := (fp s)\<lparr>totalSize := ts, totalFiles := tf\<rparr>,
                             handles := (handles s)[f := h]\<rparr>,
                          err))))"

section \<open>Sequences of calls\<close>

text \<open>
  A caller of the pool makes one call after another. \<open>call\<close> is a call with its
  arguments, \<open>ret\<close> what it returned. \<open>run\<close> makes the calls in order and logs, for each
  call that returned, its result and the heap it left; a panic ends the run.
\<close>

datatype call =
    CallNewFile
  | CallReadAt nat "byte list" int64
  | CallWriteAt nat "byte list" int64
  | CallTruncate nat int64
  | CallClose nat

datatype ret =
    RetNewFile "nat option" "error option"
  | RetReadAt "byte list" go_int "error option"
  | RetWriteAt go_int "error option"
  | RetTruncate "error option"
  | RetClose "error option"

fun step ::
  "('w, 'p, 'h) inner \<Rightarrow> ('w, 'p, 'h) heap \<Rightarrow> call \<Rightarrow> panic + ('w, 'p, 'h) heap \<times> ret"
where
  "step I s CallNewFile =
     (case NewFile I s of (s', f, err) \<Rightarrow> Inr (s', RetNewFile f err))"
| "step I s (CallReadAt f p off) =
     (case ReadAt I s f p off of
        Inl e \<Rightarrow> Inl e
      | Inr (s', p', n, err) \<Rightarrow> Inr (s', RetReadAt p' n err))"
| "step I s (CallWriteAt f p off) =
     (case WriteAt I s f p off of
        Inl e \<Rightarrow> Inl e
      | Inr (s', n, err) \<Rightarrow> Inr (s', RetWriteAt n err))"
| "step I s (CallTruncate f len) =
     (case Truncate I s f len of
        Inl e \<Rightarrow> Inl e
      | Inr (s', err) \<Rightarrow> Inr (s', RetTruncate err))"
| "step I s (CallClose f) =
     (case Close I s f of
        Inl e \<Rightarrow> Inl e
      | Inr (s', err) \<Rightarrow> Inr (s', RetClose err))"

fun run ::
  "('w, 'p, 'h) inner \<Rightarrow> ('w, 'p, 'h) heap \<Rightarrow> call list \<Rightarrow> (ret \<times> ('w, 'p, 'h) heap) list"
where
  "run I s [] = []"
| "run I s (c # cs) =
     (case step I s c of
        Inl e \<Rightarrow> []
      | Inr (s', r) \<Rightarrow> (r, s') # run I s' cs)"

text \<open>The heaps a run passes through, the starting heap first, and the heap it ends in.\<close>

definition trace ::
  "('w, 'p, 'h) inner \<Rightarrow> ('w, 'p, 'h) heap \<Rightarrow> call list \<Rightarrow> ('w, 'p, 'h) heap list"
where
  "trace I s cs = s # map snd (run I s cs)"

definition final ::
  "('w, 'p, 'h) inner \<Rightarrow> ('w, 'p, 'h) heap \<Rightarrow> call list \<Rightarrow> ('w, 'p, 'h) heap"
where
  "final I s cs = last (trace I s cs)"

section \<open>The executor\<close>

text \<open>
  \<^verbatim>\<open>remoteexecution.ExecuteResponse\<close> with the messages it nests, cut down to a few
  fields. A message-typed field of a protobuf message is a Go pointer: \<open>None\<close> is \<^verbatim>\<open>nil\<close>.
  \<open>'m\<close> is the type of an auxiliary metadata entry (\<^verbatim>\<open>*anypb.Any\<close>).
\<close>

record 'm ExecutedActionMetadata =
  Worker :: string
  AuxiliaryMetadata :: "'m list"

record 'm ActionResult =
  ExitCode :: "32 word"
  ExecutionMetadata :: "'m ExecutedActionMetadata option"

text \<open>
  Modelled from the spec: the field \<open>AttachedErrors\<close>, which stands for what
  \<^verbatim>\<open>attachErrorToExecuteResponse\<close> writes to. The spec gives the result ``a side-channel
  for attaching non-fatal diagnostic errors to an already-produced result''.
\<close>

record 'm ExecuteResponse =
  Result :: "'m ActionResult option"
  CachedResult :: bool
  Status :: "error option"
  Message :: string
  AttachedErrors :: "error list"

text \<open>
  \<^verbatim>\<open>util.StatusWrap\<close> of bb-storage keeps the code of the error and prefixes its message.
\<close>

fun StatusWrap :: "error \<Rightarrow> string \<Rightarrow> error" where
  "StatusWrap (StatusError c m) msg = StatusError c (msg @ '': '' @ m)"

text \<open>
  Modelled from the spec: \<^verbatim>\<open>attachErrorToExecuteResponse\<close> is a function of package
  \<^verbatim>\<open>builder\<close> that the file calls and does not define. The spec has the error
  ``recorded onto the result via the standard error-attachment channel (a non-fatal,
  observable degradation -- not a masking of action outcome)'', the primary result being
  preserved.
\<close>

definition attachErrorToExecuteResponse :: "'m ExecuteResponse \<Rightarrow> error \<Rightarrow> 'm ExecuteResponse" where
  "attachErrorToExecuteResponse response err =
     response\<lparr>AttachedErrors := AttachedErrors response @ [err]\<rparr>"

text \<open>
  \<^verbatim>\<open>filePoolStatsBuildExecutor.Execute\<close>. The wrapped executor is a parameter: given the
  heap with the fresh instrumented pool and the forwarded arguments \<open>request\<close> (context,
  instance name, request and update channel), it returns the heap it leaves and its
  response. \<^verbatim>\<open>anypb.New\<close> is a parameter too, returning the entry and the error. The
  result is the outside world and the response, or the panic of dereferencing a \<^verbatim>\<open>nil\<close>
  \<^verbatim>\<open>Result\<close> or \<^verbatim>\<open>ExecutionMetadata\<close>.
\<close>

definition Execute ::
  "(FilePoolResourceUsage \<Rightarrow> 'm \<times> error option) \<Rightarrow>
   (('w, 'p, 'h) heap \<Rightarrow> 'r \<Rightarrow> ('w, 'p, 'h) heap \<times> 'm ExecuteResponse) \<Rightarrow>
   'w \<Rightarrow> 'p \<Rightarrow> 'r \<Rightarrow> panic + 'w \<times> 'm ExecuteResponse"
where
  "Execute anypb_New buildExecutor w filePool request =
     (case buildExecutor (new_pool w filePool) request of (s1, response) \<Rightarrow>
        (let stats = stats (fp s1) in
         (case anypb_New stats of (resourceUsage, err) \<Rightarrow>
            (case err of
               None \<Rightarrow>
                 (case Result response of
                    None \<Rightarrow> Inl NilPointerDereference
                  | Some result \<Rightarrow>
                      (case ExecutionMetadata result of
                         None \<Rightarrow> Inl NilPointerDereference
                       | Some md \<Rightarrow>
                           Inr (world s1,
                                response\<lparr>Result := Some (result\<lparr>ExecutionMetadata := Some
                                  (md\<lparr>AuxiliaryMetadata :=
                                     AuxiliaryMetadata md @ [resourceUsage]\<rparr>)\<rparr>)\<rparr>)))
             | Some e \<Rightarrow>
                 Inr (world s1,
                      attachErrorToExecuteResponse response
                        (StatusWrap e ''Failed to marshal file pool resource usage''))))))"

section \<open>Accounting\<close>

text \<open>
  A handle is live from its creation until \<^verbatim>\<open>Close\<close> clears its pool pointer. The live
  handles are the handles ``created but not yet closed''; \<open>live_size\<close> is the sum of their
  sizes as \<^verbatim>\<open>uint64\<close> arithmetic has it, \<open>live_bytes\<close> the sum as a natural number.
\<close>

definition live :: "'h statsCollectingFileReadWriter \<Rightarrow> bool" where
  "live h = (pool h \<noteq> None)"

definition live_count :: "('w, 'p, 'h) heap \<Rightarrow> nat" where
  "live_count s = length (filter live (handles s))"

definition live_size :: "('w, 'p, 'h) heap \<Rightarrow> uint64" where
  "live_size s = sum_list (map size' (filter live (handles s)))"

definition live_bytes :: "('w, 'p, 'h) heap \<Rightarrow> nat" where
  "live_bytes s = sum_list (map (\<lambda>h. unat (size' h)) (filter live (handles s)))"

text \<open>The sizes of the live handles add up to less than \<open>2 ^ 64\<close>: \<^verbatim>\<open>totalSize\<close> has not wrapped.\<close>

definition fits :: "('w, 'p, 'h) heap \<Rightarrow> bool" where
  "fits s = (live_bytes s < 2 ^ 64)"

text \<open>
  The two accounting invariants. The peak of the file count is kept against the true
  number of live handles, cut at the largest \<^verbatim>\<open>uint64\<close>.
\<close>

definition inv_count :: "('w, 'p, 'h) heap \<Rightarrow> bool" where
  "inv_count s =
     (totalFiles (fp s) = of_nat (live_count s) \<and>
      min (live_count s) (2 ^ 64 - 1) \<le> unat (FilesCountPeak (stats (fp s))))"

definition inv_size :: "('w, 'p, 'h) heap \<Rightarrow> bool" where
  "inv_size s = (totalSize (fp s) = live_size s)"

text \<open>
  A handle that still has its wrapped file still has its pool: \<^verbatim>\<open>NewFile\<close> sets the pool
  pointer and only \<^verbatim>\<open>Close\<close> clears it, after the wrapped file.
\<close>

definition attached :: "('w, 'p, 'h) heap \<Rightarrow> bool" where
  "attached s = list_all (\<lambda>h. FileReadWriter h = None \<or> pool h \<noteq> None) (handles s)"

text \<open>What a run's log says was written: the byte count of a \<^verbatim>\<open>WriteAt\<close>, as an integer.\<close>

fun accepted :: "ret \<Rightarrow> int" where
  "accepted (RetWriteAt n err) = sint n"
| "accepted r = 0"

fun is_write :: "ret \<Rightarrow> bool" where
  "is_write (RetWriteAt n err) = True"
| "is_write r = False"


fun is_close :: "call \<Rightarrow> bool" where
  "is_close (CallClose f) = True"
| "is_close c = False"

section \<open>Sample implementations of the wrapped interfaces\<close>

text \<open>
  Two implementations of the wrapped pool and files, to run the model on concrete
  calls. \<open>accepting\<close> never fails: a write accepts the whole buffer, a read fills it with
  zeros; its world counts the files it has issued. \<open>scripted\<close> answers each call with
  the next entry of a script, a transfer count and an error, so that failures and
  partial transfers can be played.
\<close>

definition accepting :: "(nat, unit, nat) inner" where
  "accepting =
     \<lparr>base_NewFile = (\<lambda>w p. (Suc w, (Some w, None))),
      inner_ReadAt = (\<lambda>w g p off. (w, (replicate (length p) 0, of_nat (length p), None))),
      inner_WriteAt = (\<lambda>w g p off. (w, (of_nat (length p), None))),
      inner_Truncate = (\<lambda>w g len. (w, None)),
      inner_Close = (\<lambda>w g. (w, None))\<rparr>"

fun next_answer ::
  "(go_int \<times> error option) list \<Rightarrow> (go_int \<times> error option) list \<times> go_int \<times> error option"
where
  "next_answer [] = ([], 0, None)"
| "next_answer (a # w) = (w, a)"

definition scripted :: "((go_int \<times> error option) list, unit, nat) inner" where
  "scripted =
     \<lparr>base_NewFile = (\<lambda>w p. case next_answer w of (w', n, e) \<Rightarrow>
        (w', (if e = None then Some (unat n) else None, e))),
      inner_ReadAt = (\<lambda>w g p off. case next_answer w of (w', n, e) \<Rightarrow> (w', (p, n, e))),
      inner_WriteAt = (\<lambda>w g p off. case next_answer w of (w', n, e) \<Rightarrow> (w', (n, e))),
      inner_Truncate = (\<lambda>w g len. case next_answer w of (w', n, e) \<Rightarrow> (w', e)),
      inner_Close = (\<lambda>w g. case next_answer w of (w', n, e) \<Rightarrow> (w', e))\<rparr>"

text \<open>An executor that makes the given calls on the pool and returns the given response.\<close>

definition calling_executor ::
  "('w, 'p, 'h) inner \<Rightarrow> call list \<Rightarrow> 'm ExecuteResponse \<Rightarrow>
   ('w, 'p, 'h) heap \<Rightarrow> 'r \<Rightarrow> ('w, 'p, 'h) heap \<times> 'm ExecuteResponse"
where
  "calling_executor I cs response s request = (final I s cs, response)"

text \<open>
  The scenario of the spec: two handles, 100 bytes written to the first and 50 to the
  second, the first truncated to 10, both closed.
\<close>

definition scenario_writes :: "call list" where
  "scenario_writes =
     [CallNewFile, CallNewFile,
      CallWriteAt 0 (replicate 100 0) 0, CallWriteAt 1 (replicate 50 0) 0]"

definition scenario :: "call list" where
  "scenario = scenario_writes @ [CallTruncate 0 10, CallClose 0, CallClose 1]"

text \<open>
  Three sparse files: one byte written at offset \<open>2 ^ 63 - 2\<close> of the first and of the
  third, three bytes at the start of the second. Each file is at most \<open>2 ^ 63 - 1\<close> bytes
  long, the largest \<^verbatim>\<open>int64\<close>; together they pass \<open>2 ^ 64\<close>.
\<close>

definition sparse_writes :: "call list" where
  "sparse_writes =
     [CallNewFile, CallNewFile, CallNewFile,
      CallWriteAt 0 [0] 9223372036854775806,
      CallWriteAt 1 [0, 0, 0] 0,
      CallWriteAt 2 [0] 9223372036854775806]"

definition failing_heap :: "((go_int \<times> error option) list, unit, nat) heap" where
  "failing_heap =
     \<lparr>world = [(3, Some (StatusError 13 ''disk failure''))],
      fp = \<lparr>base = (), stats = zero_usage, totalSize = 0, totalFiles = 1\<rparr>,
      handles = [\<lparr>FileReadWriter = Some 0, pool = Some (), size' = 0\<rparr>]\<rparr>"

definition partial_script :: "(go_int \<times> error option) list" where
  "partial_script = [(0, None), (3, Some (StatusError 13 ''disk failure'')), (5, None)]"

definition partial_calls :: "call list" where
  "partial_calls = [CallNewFile, CallWriteAt 0 [1, 2, 3, 4] 0, CallWriteAt 0 [1, 2, 3, 4, 5, 6] 3]"

text \<open>
  Sample responses of a wrapped executor: one as \<^verbatim>\<open>NewDefaultExecuteResponse\<close> would
  start it, with a result and its metadata, and one that carries no result.
\<close>

definition populated_response :: "FilePoolResourceUsage ExecuteResponse" where
  "populated_response =
     \<lparr>Result = Some \<lparr>ExitCode = 0,
        ExecutionMetadata = Some \<lparr>Worker = ''worker'', AuxiliaryMetadata = []\<rparr>\<rparr>,
      CachedResult = False, Status = None, Message = [], AttachedErrors = []\<rparr>"

definition bare_response :: "FilePoolResourceUsage ExecuteResponse" where
  "bare_response =
     \<lparr>Result = None, CachedResult = False,
      Status = Some (StatusError 4 ''deadline exceeded''), Message = [], AttachedErrors = []\<rparr>"

text \<open>Sample outcomes of \<^verbatim>\<open>anypb.New\<close>: the snapshot itself as the entry, or an error.\<close>

definition marshal_ok :: "FilePoolResourceUsage \<Rightarrow> FilePoolResourceUsage \<times> error option" where
  "marshal_ok st = (st, None)"

definition marshal_fails :: "FilePoolResourceUsage \<Rightarrow> FilePoolResourceUsage \<times> error option" where
  "marshal_fails st = (zero_usage, Some (StatusError 13 ''proto: cannot marshal''))"

section \<open>Conversions\<close>

text \<open>
  For an offset that is not negative and a count that is positive, the \<^verbatim>\<open>uint64\<close> sum of
  \<^verbatim>\<open>WriteAt\<close> is the sum of the integers; a size that shrinks below a total that holds it
  makes the total smaller without wrapping.
\<close>

lemma uint64_of_id [simp]: "uint64_of x = x"
  by (simp add: uint64_of_def)



lemma shrink_no_wrap:
  fixes ts sz l :: "64 word"
  assumes "l < sz" and "sz \<le> ts"
  shows "unat (ts - sz + l) = unat ts - (unat sz - unat l)" and "ts - sz + l \<le> ts"
  using assms by unat_arith+

section \<open>Lists and sums\<close>

lemma length_filter_update:
  "i < length xs \<Longrightarrow>
   length (filter P (xs[i := y])) + (if P (xs ! i) then 1 else 0) =
   length (filter P xs) + (if P y then 1 else 0)"
proof (induction xs arbitrary: i)
  case Nil
  then show ?case by simp
next
  case (Cons x xs)
  then show ?case by (cases i) auto
qed

lemma sum_list_map_update_word:
  fixes g :: "'a \<Rightarrow> 'b::ab_group_add"
  shows "i < length xs \<Longrightarrow>
   sum_list (map g (xs[i := y])) = sum_list (map g xs) - g (xs ! i) + g y"
proof (induction xs arbitrary: i)
  case Nil
  then show ?case by simp
next
  case (Cons x xs)
  then show ?case by (cases i) (auto simp: algebra_simps)
qed

lemma list_all_update:
  assumes "list_all P xs" and "P y"
  shows "list_all P (xs[i := y])"
  using assms by (auto simp: list_all_iff dest: set_update_subset_insert [THEN subsetD])

lemma sorted_map_nth:
  fixes m :: "'a \<Rightarrow> uint64"
  assumes "sorted (map m xs)" and "i \<le> j" and "j < length xs"
  shows "m (xs ! i) \<le> m (xs ! j)"
  using sorted_nth_mono [OF assms(1,2)] assms(2,3) by simp

lemma live_size_alt: "live_size s = sum_list (map (\<lambda>h. if live h then size' h else 0) (handles s))"
  by (simp add: live_size_def sum_list_map_filter')

lemma live_bytes_alt: "live_bytes s = sum_list (map (\<lambda>h. if live h then unat (size' h) else 0) (handles s))"
  by (simp add: live_bytes_def sum_list_map_filter')

lemma sum_list_word_of_nat:
  fixes g :: "'a \<Rightarrow> 64 word"
  shows "sum_list (map g xs) = of_nat (sum_list (map (\<lambda>x. unat (g x)) xs))"
  by (induction xs) auto

lemma unat_live_size: "unat (live_size s) = live_bytes s mod 2 ^ 64"
  unfolding live_size_def live_bytes_def
  by (subst sum_list_word_of_nat) (simp add: unat_of_nat)

lemma live_count_update_same:
  assumes "f < length (handles s)" and "live h = live (handles s ! f)"
  shows "length (filter live ((handles s)[f := h])) = live_count s"
  using length_filter_update [OF assms(1), of live h] assms(2)
  by (simp add: live_count_def)

lemma live_count_update_close:
  assumes "f < length (handles s)" and "live (handles s ! f)" and "\<not> live h"
  shows "Suc (length (filter live ((handles s)[f := h]))) = live_count s"
  using length_filter_update [OF assms(1), of live h] assms(2,3)
  by (simp add: live_count_def)

lemma live_member_le:
  assumes "f < length (handles s)" and "live (handles s ! f)"
  shows "unat (size' (handles s ! f)) \<le> live_bytes s"
proof -
  let ?g = "\<lambda>h. if live h then unat (size' h) else 0"
  have "map ?g (handles s) ! f \<le> sum_list (map ?g (handles s))"
    by (rule elem_le_sum_list) (simp add: assms(1))
  then have "?g (handles s ! f) \<le> sum_list (map ?g (handles s))"
    using assms(1) by (simp only: nth_map)
  then show ?thesis using assms(2) by (simp add: live_bytes_alt)
qed

section \<open>What a call that returns has done\<close>

lemma updateSizeLocked_handles:
  "handles (updateSizeLocked f ns s) = (handles s)[f := (handles s ! f)\<lparr>size' := ns\<rparr>]"
  by (simp add: updateSizeLocked_def Let_def)

lemma updateSizeLocked_totalSize:
  "totalSize (fp (updateSizeLocked f ns s)) = totalSize (fp s) - size' (handles s ! f) + ns"
  by (simp add: updateSizeLocked_def Let_def)

lemma updateSizeLocked_totalFiles:
  "totalFiles (fp (updateSizeLocked f ns s)) = totalFiles (fp s)"
  by (simp add: updateSizeLocked_def Let_def)

lemma updateSizeLocked_stats:
  "stats (fp (updateSizeLocked f ns s)) =
     (if FilesSizeBytesPeak (stats (fp s)) < totalSize (fp s) - size' (handles s ! f) + ns
      then (stats (fp s))\<lparr>FilesSizeBytesPeak := totalSize (fp s) - size' (handles s ! f) + ns\<rparr>
      else stats (fp s))"
  by (simp add: updateSizeLocked_def Let_def)

lemma updateSizeLocked_peaks:
  "FilesCountPeak (stats (fp (updateSizeLocked f ns s))) = FilesCountPeak (stats (fp s)) \<and>
   FilesSizeBytesPeak (stats (fp s)) \<le> FilesSizeBytesPeak (stats (fp (updateSizeLocked f ns s))) \<and>
   totalSize (fp (updateSizeLocked f ns s)) \<le> FilesSizeBytesPeak (stats (fp (updateSizeLocked f ns s)))"
  by (auto simp: updateSizeLocked_stats updateSizeLocked_totalSize)

lemma NewFile_peaks_mono:
  assumes "NewFile I s = (s', r)"
  shows "FilesCountPeak (stats (fp s)) \<le> FilesCountPeak (stats (fp s')) \<and>
         FilesSizeBytesPeak (stats (fp s')) = FilesSizeBytesPeak (stats (fp s)) \<and>
         totalSize (fp s') = totalSize (fp s)"
  using assms
  by (auto simp: NewFile_def Let_def split: prod.splits if_splits)

lemma ReadAt_Inr:
  assumes "ReadAt I s f p off = Inr (s', p', n, err)"
  shows "f < length (handles s) \<and> live (handles s ! f) \<and> handles s' = handles s \<and>
         totalFiles (fp s') = totalFiles (fp s) \<and> totalSize (fp s') = totalSize (fp s) \<and>
         base (fp s') = base (fp s) \<and>
         stats (fp s') = (stats (fp s))\<lparr>ReadsCount := ReadsCount (stats (fp s)) + 1,
                                         ReadsSizeBytes := ReadsSizeBytes (stats (fp s)) + uint64_of n\<rparr>"
  using assms
  by (auto simp: ReadAt_def Let_def live_def split: if_splits option.splits prod.splits)

lemma WriteAt_Inr:
  assumes "WriteAt I s f p off = Inr (s', n, err)"
  obtains g w' s1 where "f < length (handles s)" and "FileReadWriter (handles s ! f) = Some g"
    and "live (handles s ! f)" and "inner_WriteAt I (world s) g p off = (w', n, err)"
    and "s1 = s\<lparr>world := w', fp := (fp s)\<lparr>stats := (stats (fp s))
            \<lparr>WritesCount := WritesCount (stats (fp s)) + 1,
             WritesSizeBytes := WritesSizeBytes (stats (fp s)) + uint64_of n\<rparr>\<rparr>\<rparr>"
    and "s' = (if 0 < sint n \<and> size' (handles s ! f) < uint64_of off + uint64_of n
               then updateSizeLocked f (uint64_of off + uint64_of n) s1 else s1)"
  using assms
  by (auto simp: WriteAt_def Let_def live_def split: if_splits option.splits prod.splits)

lemma Truncate_Inr:
  assumes "Truncate I s f len = Inr (s', err)"
  obtains g w' s1 where "f < length (handles s)" and "FileReadWriter (handles s ! f) = Some g"
    and "live (handles s ! f)" and "inner_Truncate I (world s) g len = (w', err)"
    and "s1 = s\<lparr>world := w', fp := (fp s)\<lparr>stats := (stats (fp s))
            \<lparr>TruncatesCount := TruncatesCount (stats (fp s)) + 1\<rparr>\<rparr>\<rparr>"
    and "s' = (if err = None then updateSizeLocked f (uint64_of len) s1 else s1)"
  using assms
  by (auto simp: Truncate_def Let_def live_def split: if_splits option.splits prod.splits)

lemma Close_Inr:
  assumes "Close I s f = Inr (s', err)"
  shows "f < length (handles s) \<and> live (handles s ! f) \<and>
         handles s' = (handles s)[f := (handles s ! f)\<lparr>FileReadWriter := None, pool := None\<rparr>] \<and>
         totalFiles (fp s') = totalFiles (fp s) - 1 \<and>
         totalSize (fp s') = totalSize (fp s) - size' (handles s ! f) \<and>
         stats (fp s') = stats (fp s) \<and> base (fp s') = base (fp s)"
  using assms
  by (auto simp: Close_def Let_def live_def split: if_splits option.splits prod.splits)

text \<open>
  \<^verbatim>\<open>WriteAt\<close> and \<^verbatim>\<open>Truncate\<close> first count the call, which leaves the accounting alone, and
  then may update the size.
\<close>

lemma WriteAt_frame:
  assumes "WriteAt I s f p off = Inr (s', n, err)"
  obtains s1 where "f < length (handles s)" and "live (handles s ! f)"
    and "handles s1 = handles s" and "totalFiles (fp s1) = totalFiles (fp s)"
    and "totalSize (fp s1) = totalSize (fp s)"
    and "FilesCountPeak (stats (fp s1)) = FilesCountPeak (stats (fp s))"
    and "FilesSizeBytesPeak (stats (fp s1)) = FilesSizeBytesPeak (stats (fp s))"
    and "s' = (if 0 < sint n \<and> size' (handles s ! f) < uint64_of off + uint64_of n
               then updateSizeLocked f (uint64_of off + uint64_of n) s1 else s1)"
proof -
  from assms obtain g w' s1 where *: "f < length (handles s)" "live (handles s ! f)"
    "s1 = s\<lparr>world := w', fp := (fp s)\<lparr>stats := (stats (fp s))
            \<lparr>WritesCount := WritesCount (stats (fp s)) + 1,
             WritesSizeBytes := WritesSizeBytes (stats (fp s)) + uint64_of n\<rparr>\<rparr>\<rparr>"
    "s' = (if 0 < sint n \<and> size' (handles s ! f) < uint64_of off + uint64_of n
               then updateSizeLocked f (uint64_of off + uint64_of n) s1 else s1)"
    by (rule WriteAt_Inr)
  show ?thesis
    by (rule that [of s1]) (use * in simp_all)
qed

lemma Truncate_frame:
  assumes "Truncate I s f len = Inr (s', err)"
  obtains s1 where "f < length (handles s)" and "live (handles s ! f)"
    and "handles s1 = handles s" and "totalFiles (fp s1) = totalFiles (fp s)"
    and "totalSize (fp s1) = totalSize (fp s)"
    and "FilesCountPeak (stats (fp s1)) = FilesCountPeak (stats (fp s))"
    and "FilesSizeBytesPeak (stats (fp s1)) = FilesSizeBytesPeak (stats (fp s))"
    and "s' = (if err = None then updateSizeLocked f (uint64_of len) s1 else s1)"
proof -
  from assms obtain g w' s1 where *: "f < length (handles s)" "live (handles s ! f)"
    "s1 = s\<lparr>world := w', fp := (fp s)\<lparr>stats := (stats (fp s))
            \<lparr>TruncatesCount := TruncatesCount (stats (fp s)) + 1\<rparr>\<rparr>\<rparr>"
    "s' = (if err = None then updateSizeLocked f (uint64_of len) s1 else s1)"
    by (rule Truncate_Inr)
  show ?thesis
    by (rule that [of s1]) (use * in simp_all)
qed

text \<open>The answer a call returns is the answer of the wrapped file.\<close>

lemma ReadAt_inner:
  assumes "ReadAt I s f p off = Inr (s', p', n, err)"
  shows "\<exists>g w'. FileReadWriter (handles s ! f) = Some g \<and>
           inner_ReadAt I (world s) g p off = (w', p', n, err)"
  using assms
  by (auto simp: ReadAt_def Let_def split: if_splits option.splits prod.splits)

lemma WriteAt_inner:
  assumes "WriteAt I s f p off = Inr (s', n, err)"
  shows "\<exists>g w'. FileReadWriter (handles s ! f) = Some g \<and>
           inner_WriteAt I (world s) g p off = (w', n, err)"
  using assms by (elim WriteAt_Inr) simp

lemma Truncate_inner:
  assumes "Truncate I s f len = Inr (s', err)"
  shows "\<exists>g w'. FileReadWriter (handles s ! f) = Some g \<and>
           inner_Truncate I (world s) g len = (w', err)"
  using assms by (elim Truncate_Inr) simp

lemma Close_inner:
  assumes "Close I s f = Inr (s', err)"
  shows "\<exists>g w'. FileReadWriter (handles s ! f) = Some g \<and>
           inner_Close I (world s) g = (w', err)"
  using assms
  by (auto simp: Close_def Let_def split: if_splits option.splits prod.splits)

lemma WriteAt_counters:
  assumes "WriteAt I s f p off = Inr (s', n, err)"
  shows "WritesCount (stats (fp s')) = WritesCount (stats (fp s)) + 1 \<and>
         WritesSizeBytes (stats (fp s')) = WritesSizeBytes (stats (fp s)) + uint64_of n \<and>
         ReadsCount (stats (fp s')) = ReadsCount (stats (fp s)) \<and>
         ReadsSizeBytes (stats (fp s')) = ReadsSizeBytes (stats (fp s)) \<and>
         TruncatesCount (stats (fp s')) = TruncatesCount (stats (fp s)) \<and>
         FilesCreated (stats (fp s')) = FilesCreated (stats (fp s)) \<and>
         FilesCountPeak (stats (fp s')) = FilesCountPeak (stats (fp s))"
  using assms
  by (elim WriteAt_Inr) (simp add: updateSizeLocked_stats)

lemma Truncate_counters:
  assumes "Truncate I s f len = Inr (s', err)"
  shows "TruncatesCount (stats (fp s')) = TruncatesCount (stats (fp s)) + 1 \<and>
         WritesCount (stats (fp s')) = WritesCount (stats (fp s)) \<and>
         WritesSizeBytes (stats (fp s')) = WritesSizeBytes (stats (fp s)) \<and>
         ReadsCount (stats (fp s')) = ReadsCount (stats (fp s)) \<and>
         ReadsSizeBytes (stats (fp s')) = ReadsSizeBytes (stats (fp s)) \<and>
         FilesCreated (stats (fp s')) = FilesCreated (stats (fp s)) \<and>
         FilesCountPeak (stats (fp s')) = FilesCountPeak (stats (fp s))"
  using assms
  by (elim Truncate_Inr) (simp add: updateSizeLocked_stats)

text \<open>After \<^verbatim>\<open>Close\<close> the wrapped file is \<^verbatim>\<open>nil\<close>, and every further call on the handle panics.\<close>

lemma closed_handle_panics:
  assumes "f < length (handles s)" and "FileReadWriter (handles s ! f) = None"
  shows "ReadAt I s f p off = Inl NilPointerDereference"
    and "WriteAt I s f p off = Inl NilPointerDereference"
    and "Truncate I s f len = Inl NilPointerDereference"
    and "Close I s f = Inl NilPointerDereference"
  using assms by (simp_all add: ReadAt_def WriteAt_def Truncate_def Close_def)

section \<open>The accounting invariants\<close>

lemma inv_count_new_pool: "inv_count (new_pool w b)"
  by (simp add: inv_count_def new_pool_def live_count_def zero_usage_def)

lemma inv_size_new_pool: "inv_size (new_pool w b)"
  by (simp add: inv_size_def new_pool_def live_size_def)

lemma inv_count_le:
  assumes "inv_count s"
  shows "totalFiles (fp s) \<le> FilesCountPeak (stats (fp s))"
proof -
  let ?n = "live_count s"
  have "unat (totalFiles (fp s)) = ?n mod 2 ^ 64"
    using assms by (simp add: inv_count_def unat_of_nat)
  moreover have "?n mod 2 ^ 64 \<le> ?n" by simp
  moreover have "?n mod 2 ^ 64 < 2 ^ 64" by simp
  moreover have "min ?n (2 ^ 64 - 1) \<le> unat (FilesCountPeak (stats (fp s)))"
    using assms by (simp add: inv_count_def)
  ultimately have "unat (totalFiles (fp s)) \<le> unat (FilesCountPeak (stats (fp s)))"
    unfolding min_def by (auto split: if_splits)
  then show ?thesis by (simp add: word_le_nat_alt)
qed

lemma peak_step:
  fixes pk :: uint64 and n :: nat
  assumes "min n (2 ^ 64 - 1) \<le> unat pk"
  shows "min (Suc n) (2 ^ 64 - 1) \<le> unat (if pk < of_nat n + 1 then of_nat n + 1 else pk)"
proof (cases "Suc n < 2 ^ 64")
  case True
  then have "unat (of_nat (Suc n) :: uint64) = Suc n"
    by (simp add: unat_of_nat del: of_nat_Suc)
  then have u: "unat (of_nat n + 1 :: uint64) = Suc n" by (simp add: add.commute)
  show ?thesis
  proof (cases "pk < of_nat n + 1")
    case True
    then show ?thesis using u by simp
  next
    case False
    then have "Suc n \<le> unat pk" using u by (simp add: word_less_nat_alt)
    then show ?thesis using False by simp
  qed
next
  case False
  have "unat pk < 2 ^ 64" using unsigned_less [of pk, where 'a = nat] by simp
  then have top: "unat pk = 2 ^ 64 - 1" using assms False by (simp add: min_def split: if_splits)
  have "unat (of_nat n + 1 :: uint64) < 2 ^ 64"
    using unsigned_less [of "of_nat n + 1 :: uint64", where 'a = nat] by simp
  then have "\<not> pk < of_nat n + 1" using top by (simp add: word_less_nat_alt)
  then show ?thesis using top by simp
qed

lemma NewFile_inv_count:
  assumes "inv_count s" and "NewFile I s = (s', r)"
  shows "inv_count s'"
proof (cases "snd (snd (base_NewFile I (world s) (base (fp s))))")
  case (Some e)
  then have "fp s' = fp s" "handles s' = handles s"
    using assms(2) by (auto simp: NewFile_def split: prod.splits)
  then show ?thesis using assms(1) by (simp add: inv_count_def live_count_def)
next
  case None
  let ?n = "live_count s"
  let ?pk = "FilesCountPeak (stats (fp s))"
  let ?tf = "of_nat ?n + 1 :: uint64"
  have lc: "live_count s' = Suc ?n"
    using assms(2) None
    by (auto simp: NewFile_def live_count_def live_def Let_def split: prod.splits)
  have tf: "totalFiles (fp s') = ?tf"
    using assms None
    by (auto simp: NewFile_def inv_count_def Let_def split: prod.splits)
  have pk: "FilesCountPeak (stats (fp s')) = (if ?pk < ?tf then ?tf else ?pk)"
    using assms None
    by (auto simp: NewFile_def inv_count_def Let_def split: prod.splits)
  have old: "min ?n (2 ^ 64 - 1) \<le> unat ?pk"
    using assms(1) by (simp add: inv_count_def)
  show ?thesis
    unfolding inv_count_def lc tf pk
    using peak_step [OF old] by (simp add: add.commute)
qed

lemma Close_inv_count:
  assumes "inv_count s" and "Close I s f = Inr (s', err)"
  shows "inv_count s'"
proof -
  note c = Close_Inr [OF assms(2)]
  let ?h = "(handles s ! f)\<lparr>FileReadWriter := None, pool := None\<rparr>"
  have "\<not> live ?h" by (simp add: live_def)
  then have lc: "Suc (live_count s') = live_count s"
    using c live_count_update_close [of f s ?h] by (simp add: live_count_def)
  have "totalFiles (fp s') = of_nat (Suc (live_count s')) - 1"
    using c assms(1) lc by (simp add: inv_count_def del: of_nat_Suc)
  then have tf: "totalFiles (fp s') = of_nat (live_count s')" by simp
  have "live_count s' \<le> live_count s" using lc by simp
  then have "min (live_count s') (2 ^ 64 - 1) \<le> min (live_count s) (2 ^ 64 - 1)"
    by (rule min.mono) simp
  also have "\<dots> \<le> unat (FilesCountPeak (stats (fp s)))"
    using assms(1) by (simp add: inv_count_def)
  also have "stats (fp s) = stats (fp s')" using c by simp
  finally show ?thesis
    using tf unfolding inv_count_def by (intro conjI)
qed

lemma Close_inv_size:
  assumes "inv_size s" and "Close I s f = Inr (s', err)"
  shows "inv_size s'"
proof -
  note c = Close_Inr [OF assms(2)]
  show ?thesis
    using assms(1) c
    by (simp add: inv_size_def live_size_alt sum_list_map_update_word live_def)
qed

lemma updateSizeLocked_inv_count:
  assumes "inv_count s" and "f < length (handles s)"
  shows "inv_count (updateSizeLocked f ns s)"
proof -
  have "live ((handles s ! f)\<lparr>size' := ns\<rparr>) = live (handles s ! f)" by (simp add: live_def)
  then have "live_count (updateSizeLocked f ns s) = live_count s"
    using live_count_update_same [OF assms(2)]
    by (simp add: live_count_def updateSizeLocked_handles)
  then show ?thesis
    using assms(1)
    by (simp add: inv_count_def updateSizeLocked_totalFiles updateSizeLocked_stats)
qed

lemma updateSizeLocked_inv_size:
  assumes "inv_size s" and "f < length (handles s)" and "live (handles s ! f)"
  shows "inv_size (updateSizeLocked f ns s)"
  using assms
  by (simp add: inv_size_def live_size_alt updateSizeLocked_handles updateSizeLocked_totalSize
      sum_list_map_update_word live_def)

text \<open>Changes of the world and of the pool's statistics that leave the accounting alone.\<close>

lemma inv_count_cong:
  assumes "handles s' = handles s" and "totalFiles (fp s') = totalFiles (fp s)"
    and "FilesCountPeak (stats (fp s')) = FilesCountPeak (stats (fp s))"
  shows "inv_count s' = inv_count s"
  using assms by (simp add: inv_count_def live_count_def)

lemma inv_size_cong:
  assumes "handles s' = handles s" and "totalSize (fp s') = totalSize (fp s)"
  shows "inv_size s' = inv_size s"
  using assms by (simp add: inv_size_def live_size_def)

lemma step_inv_count:
  assumes "inv_count s" and "step I s c = Inr (s', r)"
  shows "inv_count s'"
proof (cases c)
  case CallNewFile
  then show ?thesis using assms NewFile_inv_count [of s I s'] by (auto split: prod.splits)
next
  case (CallReadAt f p off)
  then obtain p' n err where "ReadAt I s f p off = Inr (s', p', n, err)"
    using assms(2) by (auto split: sum.splits)
  from ReadAt_Inr [OF this] have "inv_count s' = inv_count s"
    by (intro inv_count_cong) simp_all
  then show ?thesis using assms(1) by simp
next
  case (CallWriteAt f p off)
  then obtain n err where "WriteAt I s f p off = Inr (s', n, err)"
    using assms(2) by (auto split: sum.splits)
  then obtain s1 where s1: "f < length (handles s)" "handles s1 = handles s"
      "totalFiles (fp s1) = totalFiles (fp s)"
      "FilesCountPeak (stats (fp s1)) = FilesCountPeak (stats (fp s))"
      "s' = (if 0 < sint n \<and> size' (handles s ! f) < uint64_of off + uint64_of n
               then updateSizeLocked f (uint64_of off + uint64_of n) s1 else s1)"
    by (rule WriteAt_frame)
  have "inv_count s1" using inv_count_cong [OF s1(2,3,4)] assms(1) by simp
  then show ?thesis using s1 updateSizeLocked_inv_count [of s1 f] by simp
next
  case (CallTruncate f len)
  then obtain err where "Truncate I s f len = Inr (s', err)"
    using assms(2) by (auto split: sum.splits)
  then obtain s1 where s1: "f < length (handles s)" "handles s1 = handles s"
      "totalFiles (fp s1) = totalFiles (fp s)"
      "FilesCountPeak (stats (fp s1)) = FilesCountPeak (stats (fp s))"
      "s' = (if err = None then updateSizeLocked f (uint64_of len) s1 else s1)"
    by (rule Truncate_frame)
  have "inv_count s1" using inv_count_cong [OF s1(2,3,4)] assms(1) by simp
  then show ?thesis using s1 updateSizeLocked_inv_count [of s1 f] by simp
next
  case (CallClose f)
  then show ?thesis using assms Close_inv_count [of s I f s'] by (auto split: sum.splits)
qed

lemma step_inv_size:
  assumes "inv_size s" and "step I s c = Inr (s', r)"
  shows "inv_size s'"
proof (cases c)
  case CallNewFile
  then show ?thesis using assms
    by (auto simp: NewFile_def Let_def inv_size_def live_size_def live_def split: prod.splits if_splits)
next
  case (CallReadAt f p off)
  then obtain p' n err where "ReadAt I s f p off = Inr (s', p', n, err)"
    using assms(2) by (auto split: sum.splits)
  from ReadAt_Inr [OF this] have "inv_size s' = inv_size s"
    by (intro inv_size_cong) simp_all
  then show ?thesis using assms(1) by simp
next
  case (CallWriteAt f p off)
  then obtain n err where "WriteAt I s f p off = Inr (s', n, err)"
    using assms(2) by (auto split: sum.splits)
  then obtain s1 where s1: "f < length (handles s)" "live (handles s ! f)" "handles s1 = handles s"
      "totalSize (fp s1) = totalSize (fp s)"
      "s' = (if 0 < sint n \<and> size' (handles s ! f) < uint64_of off + uint64_of n
               then updateSizeLocked f (uint64_of off + uint64_of n) s1 else s1)"
    by (rule WriteAt_frame)
  have "inv_size s1" using inv_size_cong [OF s1(3,4)] assms(1) by simp
  then show ?thesis using s1 updateSizeLocked_inv_size [of s1 f] by simp
next
  case (CallTruncate f len)
  then obtain err where "Truncate I s f len = Inr (s', err)"
    using assms(2) by (auto split: sum.splits)
  then obtain s1 where s1: "f < length (handles s)" "live (handles s ! f)" "handles s1 = handles s"
      "totalSize (fp s1) = totalSize (fp s)"
      "s' = (if err = None then updateSizeLocked f (uint64_of len) s1 else s1)"
    by (rule Truncate_frame)
  have "inv_size s1" using inv_size_cong [OF s1(3,4)] assms(1) by simp
  then show ?thesis using s1 updateSizeLocked_inv_size [of s1 f] by simp
next
  case (CallClose f)
  then show ?thesis using assms Close_inv_size [of s I f s'] by (auto split: sum.splits)
qed

lemma step_peaks_mono:
  assumes "step I s c = Inr (s', r)"
  shows "FilesCountPeak (stats (fp s)) \<le> FilesCountPeak (stats (fp s')) \<and>
         FilesSizeBytesPeak (stats (fp s)) \<le> FilesSizeBytesPeak (stats (fp s'))"
proof (cases c)
  case CallNewFile
  then show ?thesis using assms NewFile_peaks_mono [of I s s'] by (auto split: prod.splits)
next
  case (CallReadAt f p off)
  then obtain p' n err where "ReadAt I s f p off = Inr (s', p', n, err)"
    using assms by (auto split: sum.splits)
  from ReadAt_Inr [OF this] show ?thesis by simp
next
  case (CallWriteAt f p off)
  then obtain n err where "WriteAt I s f p off = Inr (s', n, err)"
    using assms by (auto split: sum.splits)
  then obtain s1 where s1:
      "FilesCountPeak (stats (fp s1)) = FilesCountPeak (stats (fp s))"
      "FilesSizeBytesPeak (stats (fp s1)) = FilesSizeBytesPeak (stats (fp s))"
      "s' = (if 0 < sint n \<and> size' (handles s ! f) < uint64_of off + uint64_of n
               then updateSizeLocked f (uint64_of off + uint64_of n) s1 else s1)"
    by (rule WriteAt_frame)
  then show ?thesis using updateSizeLocked_peaks [of f "uint64_of off + uint64_of n" s1] by auto
next
  case (CallTruncate f len)
  then obtain err where "Truncate I s f len = Inr (s', err)"
    using assms by (auto split: sum.splits)
  then obtain s1 where s1:
      "FilesCountPeak (stats (fp s1)) = FilesCountPeak (stats (fp s))"
      "FilesSizeBytesPeak (stats (fp s1)) = FilesSizeBytesPeak (stats (fp s))"
      "s' = (if err = None then updateSizeLocked f (uint64_of len) s1 else s1)"
    by (rule Truncate_frame)
  then show ?thesis using updateSizeLocked_peaks [of f "uint64_of len" s1] by auto
next
  case (CallClose f)
  then obtain err where "Close I s f = Inr (s', err)"
    using assms by (auto split: sum.splits)
  from Close_Inr [OF this] show ?thesis by simp
qed

text \<open>While the live sizes fit, \<^verbatim>\<open>Close\<close> cannot make \<^verbatim>\<open>totalSize\<close> wrap, so the peak stays above it.\<close>

lemma unat_totalSize:
  assumes "inv_size s" and "fits s"
  shows "unat (totalSize (fp s)) = live_bytes s"
  using assms by (simp add: inv_size_def fits_def unat_live_size)

lemma Close_totalSize_le:
  assumes "inv_size s" and "fits s" and "Close I s f = Inr (s', err)"
  shows "totalSize (fp s') \<le> totalSize (fp s)"
proof -
  note c = Close_Inr [OF assms(3)]
  have "unat (size' (handles s ! f)) \<le> unat (totalSize (fp s))"
    using live_member_le [of f s] c unat_totalSize [OF assms(1,2)] by simp
  then have "size' (handles s ! f) \<le> totalSize (fp s)" by (simp add: word_le_nat_alt)
  then have "totalSize (fp s) - size' (handles s ! f) \<le> totalSize (fp s)"
    by (rule word_sub_le)
  then show ?thesis using c by simp
qed

lemma step_size_peak:
  assumes "inv_size s" and "fits s"
    and "totalSize (fp s) \<le> FilesSizeBytesPeak (stats (fp s))"
    and "step I s c = Inr (s', r)"
  shows "totalSize (fp s') \<le> FilesSizeBytesPeak (stats (fp s'))"
proof (cases c)
  case CallNewFile
  then show ?thesis using assms NewFile_peaks_mono [of I s s'] by (auto split: prod.splits)
next
  case (CallReadAt f p off)
  then obtain p' n err where "ReadAt I s f p off = Inr (s', p', n, err)"
    using assms by (auto split: sum.splits)
  from ReadAt_Inr [OF this] show ?thesis using assms(3) by simp
next
  case (CallWriteAt f p off)
  then obtain n err where "WriteAt I s f p off = Inr (s', n, err)"
    using assms by (auto split: sum.splits)
  then obtain s1 where s1:
      "totalSize (fp s1) = totalSize (fp s)"
      "FilesSizeBytesPeak (stats (fp s1)) = FilesSizeBytesPeak (stats (fp s))"
      "s' = (if 0 < sint n \<and> size' (handles s ! f) < uint64_of off + uint64_of n
               then updateSizeLocked f (uint64_of off + uint64_of n) s1 else s1)"
    by (rule WriteAt_frame)
  then show ?thesis
    using assms(3) updateSizeLocked_peaks [of f "uint64_of off + uint64_of n" s1] by auto
next
  case (CallTruncate f len)
  then obtain err where "Truncate I s f len = Inr (s', err)"
    using assms by (auto split: sum.splits)
  then obtain s1 where s1:
      "totalSize (fp s1) = totalSize (fp s)"
      "FilesSizeBytesPeak (stats (fp s1)) = FilesSizeBytesPeak (stats (fp s))"
      "s' = (if err = None then updateSizeLocked f (uint64_of len) s1 else s1)"
    by (rule Truncate_frame)
  then show ?thesis
    using assms(3) updateSizeLocked_peaks [of f "uint64_of len" s1] by auto
next
  case (CallClose f)
  then obtain err where cl: "Close I s f = Inr (s', err)"
    using assms by (auto split: sum.splits)
  have "totalSize (fp s') \<le> totalSize (fp s)"
    by (rule Close_totalSize_le [OF assms(1,2) cl])
  also note assms(3)
  also have "stats (fp s) = stats (fp s')" using Close_Inr [OF cl] by simp
  finally show ?thesis .
qed

lemma step_writes:
  assumes "step I s c = Inr (s', r)"
  shows "WritesCount (stats (fp s')) = WritesCount (stats (fp s)) + (if is_write r then 1 else 0) \<and>
         WritesSizeBytes (stats (fp s')) = WritesSizeBytes (stats (fp s)) + word_of_int (accepted r)"
proof (cases c)
  case CallNewFile
  then show ?thesis using assms
    by (auto simp: NewFile_def Let_def split: prod.splits if_splits)
next
  case (CallReadAt f p off)
  then obtain p' n err where *: "ReadAt I s f p off = Inr (s', p', n, err)" "r = RetReadAt p' n err"
    using assms by (auto split: sum.splits)
  from ReadAt_Inr [OF *(1)] *(2) show ?thesis by simp
next
  case (CallWriteAt f p off)
  then obtain n err where *: "WriteAt I s f p off = Inr (s', n, err)" "r = RetWriteAt n err"
    using assms by (auto split: sum.splits)
  from WriteAt_counters [OF *(1)] *(2) show ?thesis by simp
next
  case (CallTruncate f len)
  then obtain err where *: "Truncate I s f len = Inr (s', err)" "r = RetTruncate err"
    using assms by (auto split: sum.splits)
  from Truncate_counters [OF *(1)] *(2) show ?thesis by simp
next
  case (CallClose f)
  then obtain err where *: "Close I s f = Inr (s', err)" "r = RetClose err"
    using assms by (auto split: sum.splits)
  from Close_Inr [OF *(1)] *(2) show ?thesis by simp
qed


lemma no_live_zero:
  assumes "inv_count s" and "inv_size s" and "live_count s = 0"
  shows "totalFiles (fp s) = 0 \<and> totalSize (fp s) = 0"
  using assms by (simp add: inv_count_def inv_size_def live_count_def live_size_def)

lemma updateSizeLocked_attached:
  assumes "attached s" and "f < length (handles s)"
  shows "attached (updateSizeLocked f ns s)"
proof -
  have "FileReadWriter (handles s ! f) = None \<or> pool (handles s ! f) \<noteq> None"
    using assms by (simp add: attached_def list_all_length)
  then show ?thesis
    using assms(1) unfolding attached_def updateSizeLocked_handles
    by (intro list_all_update) simp_all
qed

lemma step_attached:
  assumes "attached s" and "step I s c = Inr (s', r)"
  shows "attached s'"
proof (cases c)
  case CallNewFile
  then show ?thesis using assms
    by (auto simp: NewFile_def Let_def attached_def split: prod.splits if_splits)
next
  case (CallReadAt f p off)
  then obtain p' n err where "ReadAt I s f p off = Inr (s', p', n, err)"
    using assms(2) by (auto split: sum.splits)
  from ReadAt_Inr [OF this] show ?thesis using assms(1) by (simp add: attached_def)
next
  case (CallWriteAt f p off)
  then obtain n err where "WriteAt I s f p off = Inr (s', n, err)"
    using assms(2) by (auto split: sum.splits)
  then obtain s1 where s1: "f < length (handles s)" "handles s1 = handles s"
      "s' = (if 0 < sint n \<and> size' (handles s ! f) < uint64_of off + uint64_of n
               then updateSizeLocked f (uint64_of off + uint64_of n) s1 else s1)"
    by (rule WriteAt_frame)
  have "attached s1" using assms(1) s1(2) by (simp add: attached_def)
  then show ?thesis using s1 updateSizeLocked_attached [of s1 f] by simp
next
  case (CallTruncate f len)
  then obtain err where "Truncate I s f len = Inr (s', err)"
    using assms(2) by (auto split: sum.splits)
  then obtain s1 where s1: "f < length (handles s)" "handles s1 = handles s"
      "s' = (if err = None then updateSizeLocked f (uint64_of len) s1 else s1)"
    by (rule Truncate_frame)
  have "attached s1" using assms(1) s1(2) by (simp add: attached_def)
  then show ?thesis using s1 updateSizeLocked_attached [of s1 f] by simp
next
  case (CallClose f)
  then obtain err where "Close I s f = Inr (s', err)"
    using assms(2) by (auto split: sum.splits)
  from Close_Inr [OF this] show ?thesis
    using assms(1) unfolding attached_def by (auto intro: list_all_update)
qed

section \<open>Runs\<close>

lemma trace_Nil: "trace I s [] = [s]"
  by (simp add: trace_def)

lemma trace_Cons:
  "trace I s (c # cs) = s # (case step I s c of Inl e \<Rightarrow> [] | Inr (s', r) \<Rightarrow> trace I s' cs)"
  by (simp add: trace_def split: sum.splits prod.splits)

lemma trace_not_Nil: "trace I s cs \<noteq> []"
  by (simp add: trace_def)

lemma final_in_trace: "final I s cs \<in> set (trace I s cs)"
  unfolding final_def by (rule last_in_set) (rule trace_not_Nil)

lemma final_Nil: "final I s [] = s"
  by (simp add: final_def trace_def)

lemma final_Cons:
  "final I s (c # cs) = (case step I s c of Inl e \<Rightarrow> s | Inr (s', r) \<Rightarrow> final I s' cs)"
  by (simp add: final_def trace_def split: sum.splits prod.splits)

lemma trace_invariant:
  assumes "P s" and "\<forall>t \<in> set (trace I s cs). Q t"
    and "\<And>s c s' r. P s \<Longrightarrow> Q s \<Longrightarrow> step I s c = Inr (s', r) \<Longrightarrow> P s'"
  shows "\<forall>t \<in> set (trace I s cs). P t"
  using assms(1,2)
proof (induction cs arbitrary: s)
  case Nil
  then show ?case by (simp add: trace_Nil)
next
  case (Cons c cs)
  show ?case
  proof (cases "step I s c")
    case (Inl e)
    then show ?thesis using Cons.prems by (simp add: trace_Cons)
  next
    case (Inr x)
    then obtain s' r where st: "step I s c = Inr (s', r)" by (cases x) simp
    have q: "Q s" using Cons.prems(2) by (simp add: trace_Cons)
    have "P s'" using assms(3) [OF Cons.prems(1) q st] .
    moreover have "\<forall>t \<in> set (trace I s' cs). Q t"
      using Cons.prems(2) st by (simp add: trace_Cons)
    ultimately have "\<forall>t \<in> set (trace I s' cs). P t" by (rule Cons.IH)
    then show ?thesis using Cons.prems(1) st by (simp add: trace_Cons)
  qed
qed

lemma trace_sorted:
  fixes m :: "('w, 'p, 'h) heap \<Rightarrow> uint64"
  assumes "\<And>s c s' r. step I s c = Inr (s', r) \<Longrightarrow> m s \<le> m s'"
  shows "sorted (map m (trace I s cs))"
proof (induction cs arbitrary: s)
  case Nil
  then show ?case by (simp add: trace_Nil)
next
  case (Cons c cs)
  show ?case
  proof (cases "step I s c")
    case (Inl e)
    then show ?thesis by (simp add: trace_Cons)
  next
    case (Inr x)
    then obtain s' r where st: "step I s c = Inr (s', r)" by (cases x) simp
    have srt: "sorted (map m (trace I s' cs))" by (rule Cons.IH)
    have hd: "trace I s' cs = s' # tl (trace I s' cs)" by (simp add: trace_def)
    have "\<forall>t \<in> set (trace I s' cs). m s' \<le> m t"
      using srt by (subst hd, subst (asm) hd) auto
    then have "\<forall>t \<in> set (trace I s' cs). m s \<le> m t"
      using assms [OF st] by (meson order_trans)
    then show ?thesis using srt st by (simp add: trace_Cons)
  qed
qed

lemma trace_inv:
  "\<forall>t \<in> set (trace I (new_pool w b) cs). inv_count t \<and> inv_size t"
proof (rule trace_invariant [where Q = "\<lambda>t. True"])
  show "inv_count (new_pool w b) \<and> inv_size (new_pool w b)"
    by (simp add: inv_count_new_pool inv_size_new_pool)
  show "\<forall>t \<in> set (trace I (new_pool w b) cs). True" by simp
  show "inv_count s' \<and> inv_size s'"
    if "inv_count s \<and> inv_size s" and "step I s c = Inr (s', r)" for s c s' r
    using that step_inv_count [of s I c s' r] step_inv_size [of s I c s' r] by simp
qed

lemma trace_size_peak:
  assumes "\<forall>t \<in> set (trace I (new_pool w b) cs). fits t"
  shows "\<forall>t \<in> set (trace I (new_pool w b) cs).
           inv_size t \<and> totalSize (fp t) \<le> FilesSizeBytesPeak (stats (fp t))"
proof (rule trace_invariant [where Q = fits])
  show "inv_size (new_pool w b) \<and>
        totalSize (fp (new_pool w b)) \<le> FilesSizeBytesPeak (stats (fp (new_pool w b)))"
    by (simp add: inv_size_new_pool) (simp add: new_pool_def)
  show "\<forall>t \<in> set (trace I (new_pool w b) cs). fits t" by (rule assms)
  show "inv_size s' \<and> totalSize (fp s') \<le> FilesSizeBytesPeak (stats (fp s'))"
    if "inv_size s \<and> totalSize (fp s) \<le> FilesSizeBytesPeak (stats (fp s))"
      and "fits s" and "step I s c = Inr (s', r)" for s c s' r
    using that step_inv_size [of s I c s' r] step_size_peak [of s I c s' r] by simp
qed

lemma trace_count_peak_sorted:
  "sorted (map (\<lambda>t. FilesCountPeak (stats (fp t))) (trace I s cs))"
  by (rule trace_sorted) (simp add: step_peaks_mono)

lemma trace_size_peak_sorted:
  "sorted (map (\<lambda>t. FilesSizeBytesPeak (stats (fp t))) (trace I s cs))"
  by (rule trace_sorted) (simp add: step_peaks_mono)

lemma reached_fit:
  assumes "s = final I (new_pool w b) cs" and "\<forall>t \<in> set (trace I (new_pool w b) cs). fits t"
  shows "inv_size s \<and> fits s \<and> totalSize (fp s) \<le> FilesSizeBytesPeak (stats (fp s))"
  using trace_size_peak [OF assms(2)] assms final_in_trace [of I "new_pool w b" cs] by blast

lemma run_writes:
  "WritesCount (stats (fp (final I s cs))) =
     WritesCount (stats (fp s)) + of_nat (length (filter is_write (map fst (run I s cs)))) \<and>
   WritesSizeBytes (stats (fp (final I s cs))) =
     WritesSizeBytes (stats (fp s)) + word_of_int (\<Sum>r\<leftarrow>map fst (run I s cs). accepted r)"
proof (induction cs arbitrary: s)
  case Nil
  then show ?case by (simp add: final_Nil)
next
  case (Cons c cs)
  show ?case
  proof (cases "step I s c")
    case (Inl e)
    then show ?thesis by (simp add: final_Cons)
  next
    case (Inr x)
    then obtain s' r where st: "step I s c = Inr (s', r)" by (cases x) simp
    show ?thesis
      using Cons.IH [of s'] step_writes [OF st] st
      by (simp add: final_Cons algebra_simps)
  qed
qed

lemma run_closes:
  assumes "\<forall>c \<in> set cs. is_close c"
  shows "stats (fp (final I s cs)) = stats (fp s)"
  using assms
proof (induction cs arbitrary: s)
  case Nil
  then show ?case by (simp add: final_Nil)
next
  case (Cons c cs)
  then obtain f where c: "c = CallClose f" by (cases c) simp_all
  show ?case
  proof (cases "Close I s f")
    case (Inl e)
    then show ?thesis using c by (simp add: final_Cons)
  next
    case (Inr x)
    then obtain s' err where cl: "Close I s f = Inr (s', err)" by (cases x) simp
    have "stats (fp (final I s' cs)) = stats (fp s')" using Cons by simp
    then show ?thesis using c cl Close_Inr [OF cl] by (simp add: final_Cons)
  qed
qed

lemma reached_attached:
  assumes "t \<in> set (trace I (new_pool w b) cs)" and "f < length (handles t)"
    and "FileReadWriter (handles t ! f) = Some g"
  shows "pool (handles t ! f) \<noteq> None"
proof -
  have "\<forall>t \<in> set (trace I (new_pool w b) cs). attached t"
  proof (rule trace_invariant [where Q = "\<lambda>t. True"])
    show "attached (new_pool w b)" by (simp add: attached_def new_pool_def)
    show "\<forall>t \<in> set (trace I (new_pool w b) cs). True" by simp
    show "attached s'" if "attached s" and "step I s c = Inr (s', r)" for s c s' r
      using that by (rule step_attached)
  qed
  then have "attached t" using assms(1) by blast
  then show ?thesis using assms(2,3) by (auto simp: attached_def list_all_length)
qed

text \<open>The definitions to unfold when a run is evaluated on concrete calls.\<close>

lemmas run_defs = final_def trace_def accepting_def new_pool_def zero_usage_def
  NewFile_def WriteAt_def Truncate_def Close_def ReadAt_def Let_def updateSizeLocked_def

section \<open>Claims\<close>

text \<open>
  Claim C1. On a handle that has not been closed, \<^verbatim>\<open>ReadAt\<close>, \<^verbatim>\<open>WriteAt\<close>, \<^verbatim>\<open>Truncate\<close> and
  \<^verbatim>\<open>Close\<close> return exactly what the same call on the wrapped file returns, transfer
  count and error alike, and leave the outside world as that one call leaves it. This
  holds for every buffer, offset and length and for every answer of the wrapped file.
  A handle has not been closed when its wrapped file and its pool pointer are set; on
  the heaps a run reaches from a new pool the first implies the second
  (\<open>reached_attached\<close>). On a closed handle each of the four calls panics
  (\<open>closed_handle_panics\<close>).
\<close>

theorem transparency:
  assumes "f < length (handles s)" and "FileReadWriter (handles s ! f) = Some g"
    and "pool (handles s ! f) \<noteq> None"
  shows "(\<exists>s'. ReadAt I s f p off = Inr (s', snd (inner_ReadAt I (world s) g p off))
            \<and> world s' = fst (inner_ReadAt I (world s) g p off)) \<and>
         (\<exists>s'. WriteAt I s f p off = Inr (s', snd (inner_WriteAt I (world s) g p off))
            \<and> world s' = fst (inner_WriteAt I (world s) g p off)) \<and>
         (\<exists>s'. Truncate I s f len = Inr (s', snd (inner_Truncate I (world s) g len))
            \<and> world s' = fst (inner_Truncate I (world s) g len)) \<and>
         (\<exists>s'. Close I s f = Inr (s', snd (inner_Close I (world s) g))
            \<and> world s' = fst (inner_Close I (world s) g))"
proof (intro conjI)
  show "\<exists>s'. ReadAt I s f p off = Inr (s', snd (inner_ReadAt I (world s) g p off))
            \<and> world s' = fst (inner_ReadAt I (world s) g p off)"
    using assms by (auto simp: ReadAt_def Let_def split: prod.splits)
  show "\<exists>s'. WriteAt I s f p off = Inr (s', snd (inner_WriteAt I (world s) g p off))
            \<and> world s' = fst (inner_WriteAt I (world s) g p off)"
    using assms by (auto simp: WriteAt_def Let_def updateSizeLocked_def split: prod.splits)
  show "\<exists>s'. Truncate I s f len = Inr (s', snd (inner_Truncate I (world s) g len))
            \<and> world s' = fst (inner_Truncate I (world s) g len)"
    using assms by (auto simp: Truncate_def Let_def updateSizeLocked_def split: prod.splits)
  show "\<exists>s'. Close I s f = Inr (s', snd (inner_Close I (world s) g))
            \<and> world s' = fst (inner_Close I (world s) g)"
    using assms by (auto simp: Close_def Let_def split: prod.splits)
qed

text \<open>A wrapped file that fails after three bytes: count and error come back as they are.\<close>

theorem transparency_witness:
  "0 < length (handles failing_heap) \<and>
   FileReadWriter (handles failing_heap ! 0) = Some 0 \<and>
   pool (handles failing_heap ! 0) \<noteq> None \<and>
   (\<exists>s'. ReadAt scripted failing_heap 0 [1, 2, 3, 4] 8 =
          Inr (s', [1, 2, 3, 4], 3, Some (StatusError 13 ''disk failure'')) \<and> world s' = []) \<and>
   (\<exists>s'. WriteAt scripted failing_heap 0 [1, 2, 3, 4] 8 =
          Inr (s', 3, Some (StatusError 13 ''disk failure'')) \<and> world s' = []) \<and>
   (\<exists>s'. Truncate scripted failing_heap 0 5 =
          Inr (s', Some (StatusError 13 ''disk failure'')) \<and> world s' = []) \<and>
   (\<exists>s'. Close scripted failing_heap 0 =
          Inr (s', Some (StatusError 13 ''disk failure'')) \<and> world s' = [])"
proof -
  have h: "0 < length (handles failing_heap)" "FileReadWriter (handles failing_heap ! 0) = Some 0"
    "pool (handles failing_heap ! 0) \<noteq> None"
    by (simp_all add: failing_heap_def)
  have w: "world failing_heap = [(3, Some (StatusError 13 ''disk failure''))]"
    by (simp add: failing_heap_def)
  show ?thesis
    using h transparency [OF h, of scripted "[1, 2, 3, 4]" 8 5]
    by (simp add: scripted_def w)
qed

text \<open>
  Claim C2, which fails as stated. A wrapped executor may return a response that
  carries no result, here one whose status is an error. The statistics marshal, and
  appending to \<^verbatim>\<open>response.Result.ExecutionMetadata.AuxiliaryMetadata\<close> dereferences the \<^verbatim>\<open>nil\<close>
  \<^verbatim>\<open>Result\<close>: \<^verbatim>\<open>Execute\<close> panics instead of returning the response.
\<close>

theorem Execute_panics_without_result:
  "Execute marshal_ok (calling_executor accepting scenario bare_response) 0 () ()
     = Inl NilPointerDereference"
  by (simp add: Execute_def calling_executor_def bare_response_def marshal_ok_def)

text \<open>
  Claim C2, as amended. Let the wrapped executor, run on the new instrumented pool,
  return a response. If the snapshot of the statistics marshals and the response has a
  \<^verbatim>\<open>Result\<close> with \<^verbatim>\<open>ExecutionMetadata\<close>, \<^verbatim>\<open>Execute\<close> returns that response with exactly the
  marshalled entry appended to \<^verbatim>\<open>AuxiliaryMetadata\<close> and nothing else changed. If the
  snapshot does not marshal, \<^verbatim>\<open>Execute\<close> returns the response with the error, wrapped
  with the message ``Failed to marshal file pool resource usage'', attached to it, and
  with its result and status as the wrapped executor set them. In both cases the status
  and the exit code are those of the wrapped executor.
\<close>

theorem Execute_annotates:
  assumes "buildExecutor (new_pool w filePool) request = (s1, response)"
  shows "(\<forall>ru result md.
            anypb_New (stats (fp s1)) = (ru, None) \<and> Result response = Some result \<and>
            ExecutionMetadata result = Some md \<longrightarrow>
            (\<exists>r'. Execute anypb_New buildExecutor w filePool request = Inr (world s1, r') \<and>
               r' = response\<lparr>Result := Some (result\<lparr>ExecutionMetadata := Some
                      (md\<lparr>AuxiliaryMetadata := AuxiliaryMetadata md @ [ru]\<rparr>)\<rparr>)\<rparr> \<and>
               Status r' = Status response \<and> AttachedErrors r' = AttachedErrors response \<and>
               map_option ExitCode (Result r') = map_option ExitCode (Result response))) \<and>
         (\<forall>ru e.
            anypb_New (stats (fp s1)) = (ru, Some e) \<longrightarrow>
            (\<exists>r'. Execute anypb_New buildExecutor w filePool request = Inr (world s1, r') \<and>
               r' = response\<lparr>AttachedErrors := AttachedErrors response @
                      [StatusWrap e ''Failed to marshal file pool resource usage'']\<rparr> \<and>
               Status r' = Status response \<and> Result r' = Result response))"
  using assms
  by (simp add: Execute_def attachErrorToExecuteResponse_def)

text \<open>
  The executor that plays the scenario and returns a populated response: the entry
  holds the statistics of the scenario; when marshalling fails the error is attached.
\<close>

theorem Execute_annotates_witness:
  "calling_executor accepting scenario populated_response (new_pool 0 ()) () =
     (final accepting (new_pool 0 ()) scenario, populated_response) \<and>
   Execute marshal_ok (calling_executor accepting scenario populated_response) 0 () () =
     Inr (2, populated_response\<lparr>Result := Some \<lparr>ExitCode = 0, ExecutionMetadata = Some
       \<lparr>Worker = ''worker'', AuxiliaryMetadata =
          [\<lparr>FilesCreated = 2, FilesCountPeak = 2, FilesSizeBytesPeak = 150,
            ReadsCount = 0, ReadsSizeBytes = 0, WritesCount = 2, WritesSizeBytes = 150,
            TruncatesCount = 1\<rparr>]\<rparr>\<rparr>\<rparr>) \<and>
   Execute marshal_fails (calling_executor accepting scenario populated_response) 0 () () =
     Inr (2, populated_response\<lparr>AttachedErrors :=
       [StatusError 13 ''Failed to marshal file pool resource usage: proto: cannot marshal'']\<rparr>)"
proof -
  let ?be = "calling_executor accepting scenario populated_response ::
    (nat, unit, nat) heap \<Rightarrow> unit \<Rightarrow> (nat, unit, nat) heap \<times> FilePoolResourceUsage ExecuteResponse"
  let ?s1 = "final accepting (new_pool 0 ()) scenario"
  have be: "?be (new_pool 0 ()) () = (?s1, populated_response)"
    by (simp add: calling_executor_def)
  have st: "stats (fp ?s1) = \<lparr>FilesCreated = 2, FilesCountPeak = 2, FilesSizeBytesPeak = 150,
            ReadsCount = 0, ReadsSizeBytes = 0, WritesCount = 2, WritesSizeBytes = 150,
            TruncatesCount = 1\<rparr>" and wd: "world ?s1 = 2"
    by (simp_all add: scenario_def scenario_writes_def run_defs)
  have ok: "marshal_ok (stats (fp ?s1)) = (stats (fp ?s1), None)" by (simp add: marshal_ok_def)
  have bad: "marshal_fails (stats (fp ?s1)) = (zero_usage, Some (StatusError 13 ''proto: cannot marshal''))"
    by (simp add: marshal_fails_def)
  have "Execute marshal_ok ?be 0 () () =
     Inr (2, populated_response\<lparr>Result := Some \<lparr>ExitCode = 0, ExecutionMetadata = Some
       \<lparr>Worker = ''worker'', AuxiliaryMetadata = [stats (fp ?s1)]\<rparr>\<rparr>\<rparr>)"
    using Execute_annotates [of ?be 0 "()" "()" ?s1 populated_response marshal_ok] be ok wd
    by (simp add: populated_response_def)
  moreover have "Execute marshal_fails ?be 0 () () =
     Inr (2, populated_response\<lparr>AttachedErrors :=
       [StatusError 13 ''Failed to marshal file pool resource usage: proto: cannot marshal'']\<rparr>)"
    using Execute_annotates [of ?be 0 "()" "()" ?s1 populated_response marshal_fails] be bad wd
    by (simp add: populated_response_def)
  ultimately show ?thesis using be st by simp
qed

text \<open>
  Claim C3, which fails as stated. After three sparse files have been written, the
  sizes of the live handles add up to \<open>2 ^ 64 + 1\<close> and \<^verbatim>\<open>totalSize\<close> has wrapped around
  to \<open>1\<close>, which raises no peak. Closing the three-byte file then leaves
  \<^verbatim>\<open>totalSize = 2 ^ 64 - 2\<close>, the true sum of the two files still open, above the
  recorded \<^verbatim>\<open>FilesSizeBytesPeak = 2 ^ 63 + 2\<close>.
\<close>

theorem peak_below_total:
  "length (run accepting (new_pool 0 ()) (sparse_writes @ [CallClose 1])) = 7 \<and>
   FilesSizeBytesPeak (stats (fp (final accepting (new_pool 0 ()) (sparse_writes @ [CallClose 1]))))
     = 9223372036854775810 \<and>
   totalSize (fp (final accepting (new_pool 0 ()) (sparse_writes @ [CallClose 1])))
     = 18446744073709551614 \<and>
   \<not> totalSize (fp (final accepting (new_pool 0 ()) (sparse_writes @ [CallClose 1])))
     \<le> FilesSizeBytesPeak (stats (fp (final accepting (new_pool 0 ()) (sparse_writes @ [CallClose 1]))))"
  by (simp add: sparse_writes_def run_defs)

text \<open>
  Claim C3, as amended. On every heap that a sequence of calls reaches from a new pool:
  \<^verbatim>\<open>totalFiles\<close> is the number of live handles and \<^verbatim>\<open>totalSize\<close> the sum of their sizes,
  both modulo \<open>2 ^ 64\<close>; \<^verbatim>\<open>FilesCountPeak\<close> is at least \<^verbatim>\<open>totalFiles\<close>; both peaks never
  decrease from one heap to the next; and \<^verbatim>\<open>FilesCountPeak\<close> is at least every earlier
  value of \<^verbatim>\<open>totalFiles\<close>. If moreover the sizes of the live handles have added up to
  less than \<open>2 ^ 64\<close> on every heap of the run, then \<^verbatim>\<open>totalSize\<close> is their sum exactly,
  \<^verbatim>\<open>FilesSizeBytesPeak\<close> is at least \<^verbatim>\<open>totalSize\<close>, and it is at least every earlier value
  of \<^verbatim>\<open>totalSize\<close>.
\<close>

theorem pool_invariant:
  "(\<forall>t \<in> set (trace I (new_pool w b) cs).
      unat (totalFiles (fp t)) = live_count t mod 2 ^ 64 \<and>
      totalSize (fp t) = live_size t \<and>
      totalFiles (fp t) \<le> FilesCountPeak (stats (fp t))) \<and>
   sorted (map (\<lambda>t. FilesCountPeak (stats (fp t))) (trace I (new_pool w b) cs)) \<and>
   sorted (map (\<lambda>t. FilesSizeBytesPeak (stats (fp t))) (trace I (new_pool w b) cs)) \<and>
   (\<forall>j < length (trace I (new_pool w b) cs). \<forall>i \<le> j.
      totalFiles (fp (trace I (new_pool w b) cs ! i))
        \<le> FilesCountPeak (stats (fp (trace I (new_pool w b) cs ! j)))) \<and>
   ((\<forall>t \<in> set (trace I (new_pool w b) cs). fits t) \<longrightarrow>
      (\<forall>t \<in> set (trace I (new_pool w b) cs).
         unat (totalSize (fp t)) = live_bytes t \<and>
         totalSize (fp t) \<le> FilesSizeBytesPeak (stats (fp t))) \<and>
      (\<forall>j < length (trace I (new_pool w b) cs). \<forall>i \<le> j.
         totalSize (fp (trace I (new_pool w b) cs ! i))
           \<le> FilesSizeBytesPeak (stats (fp (trace I (new_pool w b) cs ! j)))))"
proof -
  let ?tr = "trace I (new_pool w b) cs"
  note inv = trace_inv [of I w b cs]
  have a: "\<forall>t \<in> set ?tr.
      unat (totalFiles (fp t)) = live_count t mod 2 ^ 64 \<and>
      totalSize (fp t) = live_size t \<and>
      totalFiles (fp t) \<le> FilesCountPeak (stats (fp t))"
  proof
    fix t assume "t \<in> set ?tr"
    then have "inv_count t" "inv_size t" using inv by simp_all
    then show "unat (totalFiles (fp t)) = live_count t mod 2 ^ 64 \<and>
      totalSize (fp t) = live_size t \<and>
      totalFiles (fp t) \<le> FilesCountPeak (stats (fp t))"
      using inv_count_le [of t] by (simp add: inv_count_def inv_size_def unat_of_nat)
  qed
  have b: "sorted (map (\<lambda>t. FilesCountPeak (stats (fp t))) ?tr)"
    by (rule trace_count_peak_sorted)
  have c: "sorted (map (\<lambda>t. FilesSizeBytesPeak (stats (fp t))) ?tr)"
    by (rule trace_size_peak_sorted)
  have d: "\<forall>j < length ?tr. \<forall>i \<le> j.
      totalFiles (fp (?tr ! i)) \<le> FilesCountPeak (stats (fp (?tr ! j)))"
  proof (intro allI impI)
    fix j i assume j: "j < length ?tr" and i: "i \<le> j"
    then have "?tr ! i \<in> set ?tr" by simp
    then have "totalFiles (fp (?tr ! i)) \<le> FilesCountPeak (stats (fp (?tr ! i)))"
      using a by blast
    also have "\<dots> \<le> FilesCountPeak (stats (fp (?tr ! j)))"
      by (rule sorted_map_nth [OF b i j])
    finally show "totalFiles (fp (?tr ! i)) \<le> FilesCountPeak (stats (fp (?tr ! j)))" .
  qed
  have e: "(\<forall>t \<in> set ?tr.
         unat (totalSize (fp t)) = live_bytes t \<and>
         totalSize (fp t) \<le> FilesSizeBytesPeak (stats (fp t))) \<and>
      (\<forall>j < length ?tr. \<forall>i \<le> j.
         totalSize (fp (?tr ! i)) \<le> FilesSizeBytesPeak (stats (fp (?tr ! j))))"
    if fit: "\<forall>t \<in> set ?tr. fits t"
  proof -
    note sp = trace_size_peak [OF fit]
    have e1: "\<forall>t \<in> set ?tr.
         unat (totalSize (fp t)) = live_bytes t \<and>
         totalSize (fp t) \<le> FilesSizeBytesPeak (stats (fp t))"
      using sp fit unat_totalSize by blast
    have e2: "\<forall>j < length ?tr. \<forall>i \<le> j.
         totalSize (fp (?tr ! i)) \<le> FilesSizeBytesPeak (stats (fp (?tr ! j)))"
    proof (intro allI impI)
      fix j i assume j: "j < length ?tr" and i: "i \<le> j"
      then have "?tr ! i \<in> set ?tr" by simp
      then have "totalSize (fp (?tr ! i)) \<le> FilesSizeBytesPeak (stats (fp (?tr ! i)))"
        using e1 by blast
      also have "\<dots> \<le> FilesSizeBytesPeak (stats (fp (?tr ! j)))"
        by (rule sorted_map_nth [OF c i j])
      finally show "totalSize (fp (?tr ! i)) \<le> FilesSizeBytesPeak (stats (fp (?tr ! j)))" .
    qed
    show ?thesis using e1 e2 by (rule conjI)
  qed
  show ?thesis using a b c d e by blast
qed

text \<open>The scenario of the spec: every heap fits, and the conclusions hold on it.\<close>

theorem pool_invariant_witness:
  "list_all fits (trace accepting (new_pool 0 ()) scenario) \<and>
   length (trace accepting (new_pool 0 ()) scenario) = 8 \<and>
   unat (totalSize (fp (trace accepting (new_pool 0 ()) scenario ! 4))) = 150 \<and>
   live_bytes (trace accepting (new_pool 0 ()) scenario ! 4) = 150 \<and>
   totalSize (fp (trace accepting (new_pool 0 ()) scenario ! 4))
     \<le> FilesSizeBytesPeak (stats (fp (trace accepting (new_pool 0 ()) scenario ! 7))) \<and>
   totalFiles (fp (trace accepting (new_pool 0 ()) scenario ! 2))
     \<le> FilesCountPeak (stats (fp (trace accepting (new_pool 0 ()) scenario ! 7)))"
proof -
  let ?tr = "trace accepting (new_pool 0 ()) scenario"
  have fit: "list_all fits ?tr"
    by (simp add: scenario_def scenario_writes_def run_defs fits_def live_bytes_def live_def)
  then have h: "\<forall>t \<in> set ?tr. fits t" by (simp add: list_all_iff)
  have len: "length ?tr = 8"
    by (simp add: scenario_def scenario_writes_def run_defs)
  have lb: "live_bytes (?tr ! 4) = 150"
    by (simp add: scenario_def scenario_writes_def run_defs live_bytes_def live_def)
  have m: "?tr ! 4 \<in> set ?tr" by (rule nth_mem) (simp add: len)
  from pool_invariant [of accepting 0 "()" scenario] h
  have p: "\<forall>t \<in> set ?tr. unat (totalSize (fp t)) = live_bytes t"
    and q: "\<forall>j < length ?tr. \<forall>i \<le> j.
         totalSize (fp (?tr ! i)) \<le> FilesSizeBytesPeak (stats (fp (?tr ! j)))"
    and r: "\<forall>j < length ?tr. \<forall>i \<le> j.
         totalFiles (fp (?tr ! i)) \<le> FilesCountPeak (stats (fp (?tr ! j)))"
    by blast+
  have "unat (totalSize (fp (?tr ! 4))) = 150" using p m lb by simp
  moreover have "totalSize (fp (?tr ! 4)) \<le> FilesSizeBytesPeak (stats (fp (?tr ! 7)))"
    using q len by simp
  moreover have "totalFiles (fp (?tr ! 2)) \<le> FilesCountPeak (stats (fp (?tr ! 7)))"
    using r len by simp
  ultimately show ?thesis using fit len lb by simp
qed

text \<open>
  Claim C4. A \<^verbatim>\<open>ReadAt\<close> that returns adds one to \<^verbatim>\<open>ReadsCount\<close> and the count \<open>n\<close> of the
  wrapped file's answer to \<^verbatim>\<open>ReadsSizeBytes\<close>; a \<^verbatim>\<open>WriteAt\<close> that returns adds one to
  \<^verbatim>\<open>WritesCount\<close> and the count of the wrapped file's answer to \<^verbatim>\<open>WritesSizeBytes\<close>; both
  whatever error the answer carries. Hence after any sequence of calls \<^verbatim>\<open>WritesCount\<close>
  has grown by the number of writes that returned and \<^verbatim>\<open>WritesSizeBytes\<close> by the sum of
  the byte counts they returned, in \<^verbatim>\<open>uint64\<close> arithmetic: on a pool that started new,
  \<^verbatim>\<open>WritesSizeBytes\<close> is that sum modulo \<open>2 ^ 64\<close>.
\<close>

theorem read_write_counters:
  "(ReadAt I s f p off = Inr (s', p', n, err) \<longrightarrow>
      ReadsCount (stats (fp s')) = ReadsCount (stats (fp s)) + 1 \<and>
      ReadsSizeBytes (stats (fp s')) = ReadsSizeBytes (stats (fp s)) + uint64_of n \<and>
      (\<exists>g w'. FileReadWriter (handles s ! f) = Some g \<and>
         inner_ReadAt I (world s) g p off = (w', p', n, err))) \<and>
   (WriteAt I s f p off = Inr (s'', m, err') \<longrightarrow>
      WritesCount (stats (fp s'')) = WritesCount (stats (fp s)) + 1 \<and>
      WritesSizeBytes (stats (fp s'')) = WritesSizeBytes (stats (fp s)) + uint64_of m \<and>
      (\<exists>g w'. FileReadWriter (handles s ! f) = Some g \<and>
         inner_WriteAt I (world s) g p off = (w', m, err'))) \<and>
   WritesCount (stats (fp (final I s cs))) =
     WritesCount (stats (fp s)) + of_nat (length (filter is_write (map fst (run I s cs)))) \<and>
   WritesSizeBytes (stats (fp (final I s cs))) =
     WritesSizeBytes (stats (fp s)) + word_of_int (\<Sum>r\<leftarrow>map fst (run I s cs). accepted r) \<and>
   uint (WritesSizeBytes (stats (fp (final I (new_pool w b) cs)))) =
     (\<Sum>r\<leftarrow>map fst (run I (new_pool w b) cs). accepted r) mod 2 ^ 64"
proof (intro conjI impI)
  assume r: "ReadAt I s f p off = Inr (s', p', n, err)"
  from ReadAt_Inr [OF r]
  show "ReadsCount (stats (fp s')) = ReadsCount (stats (fp s)) + 1"
    and "ReadsSizeBytes (stats (fp s')) = ReadsSizeBytes (stats (fp s)) + uint64_of n"
    by simp_all
  show "\<exists>g w'. FileReadWriter (handles s ! f) = Some g \<and>
         inner_ReadAt I (world s) g p off = (w', p', n, err)"
    by (rule ReadAt_inner [OF r])
next
  assume w: "WriteAt I s f p off = Inr (s'', m, err')"
  from WriteAt_counters [OF w]
  show "WritesCount (stats (fp s'')) = WritesCount (stats (fp s)) + 1"
    and "WritesSizeBytes (stats (fp s'')) = WritesSizeBytes (stats (fp s)) + uint64_of m"
    by simp_all
  show "\<exists>g w'. FileReadWriter (handles s ! f) = Some g \<and>
         inner_WriteAt I (world s) g p off = (w', m, err')"
    by (rule WriteAt_inner [OF w])
next
  show "WritesCount (stats (fp (final I s cs))) =
     WritesCount (stats (fp s)) + of_nat (length (filter is_write (map fst (run I s cs))))"
    using run_writes [of I s cs] by simp
  show "WritesSizeBytes (stats (fp (final I s cs))) =
     WritesSizeBytes (stats (fp s)) + word_of_int (\<Sum>r\<leftarrow>map fst (run I s cs). accepted r)"
    using run_writes [of I s cs] by simp
  have "WritesSizeBytes (stats (fp (final I (new_pool w b) cs))) =
     word_of_int (\<Sum>r\<leftarrow>map fst (run I (new_pool w b) cs). accepted r)"
    using run_writes [of I "new_pool w b" cs] by (simp add: new_pool_def zero_usage_def)
  then show "uint (WritesSizeBytes (stats (fp (final I (new_pool w b) cs)))) =
     (\<Sum>r\<leftarrow>map fst (run I (new_pool w b) cs). accepted r) mod 2 ^ 64"
    by (simp only: uint_word_of_int) simp
qed

text \<open>
  A read and a write that fail after three of four bytes are counted with three bytes;
  two writes that accept 3 of 4 and 5 of 6 bytes leave \<^verbatim>\<open>WritesSizeBytes = 8\<close>.
\<close>

theorem read_write_counters_witness:
  "(\<exists>s'. ReadAt scripted failing_heap 0 [1, 2, 3, 4] 8 =
       Inr (s', [1, 2, 3, 4], 3, Some (StatusError 13 ''disk failure'')) \<and>
     ReadsCount (stats (fp s')) = 1 \<and> ReadsSizeBytes (stats (fp s')) = 3) \<and>
   (\<exists>s'. WriteAt scripted failing_heap 0 [1, 2, 3, 4] 8 =
       Inr (s', 3, Some (StatusError 13 ''disk failure'')) \<and>
     WritesCount (stats (fp s')) = 1 \<and> WritesSizeBytes (stats (fp s')) = 3) \<and>
   map fst (run scripted (new_pool partial_script ()) partial_calls) =
     [RetNewFile (Some 0) None, RetWriteAt 3 (Some (StatusError 13 ''disk failure'')),
      RetWriteAt 5 None] \<and>
   WritesCount (stats (fp (final scripted (new_pool partial_script ()) partial_calls))) = 2 \<and>
   WritesSizeBytes (stats (fp (final scripted (new_pool partial_script ()) partial_calls))) = 8"
proof -
  let ?e = "Some (StatusError 13 ''disk failure'')"
  obtain s1 where r: "ReadAt scripted failing_heap 0 [1, 2, 3, 4] 8 = Inr (s1, [1, 2, 3, 4], 3, ?e)"
    by (simp add: ReadAt_def scripted_def failing_heap_def Let_def)
  obtain s2 where w: "WriteAt scripted failing_heap 0 [1, 2, 3, 4] 8 = Inr (s2, 3, ?e)"
    by (simp add: WriteAt_def scripted_def failing_heap_def Let_def updateSizeLocked_def)
  have l: "map fst (run scripted (new_pool partial_script ()) partial_calls) =
     [RetNewFile (Some 0) None, RetWriteAt 3 ?e, RetWriteAt 5 None]"
    by (simp add: partial_script_def partial_calls_def scripted_def run_defs)
  note t = read_write_counters [of scripted failing_heap 0 "[1, 2, 3, 4]" 8 s1 "[1, 2, 3, 4]" 3 ?e
      s2 3 ?e partial_calls partial_script "()"]
  have z: "stats (fp failing_heap) = zero_usage" by (simp add: failing_heap_def)
  have "ReadsCount (stats (fp s1)) = 1 \<and> ReadsSizeBytes (stats (fp s1)) = 3"
    using t r z by (simp add: zero_usage_def)
  moreover have "WritesCount (stats (fp s2)) = 1 \<and> WritesSizeBytes (stats (fp s2)) = 3"
    using t w z by (simp add: zero_usage_def)
  moreover have "WritesCount (stats (fp (final scripted (new_pool partial_script ()) partial_calls))) = 2 \<and>
     WritesSizeBytes (stats (fp (final scripted (new_pool partial_script ()) partial_calls))) = 8"
  proof -
    let ?s = "new_pool partial_script () :: ((go_int \<times> error option) list, unit, nat) heap"
    from read_write_counters [of scripted ?s 0 "[]" 0 s1 "[]" 0 None s2 0 None partial_calls]
    have c: "WritesCount (stats (fp (final scripted ?s partial_calls))) =
        WritesCount (stats (fp ?s)) +
        of_nat (length (filter is_write (map fst (run scripted ?s partial_calls))))"
      and d: "WritesSizeBytes (stats (fp (final scripted ?s partial_calls))) =
        WritesSizeBytes (stats (fp ?s)) +
        word_of_int (\<Sum>r\<leftarrow>map fst (run scripted ?s partial_calls). accepted r)"
      by blast+
    have z2: "stats (fp ?s) = zero_usage" by (simp add: new_pool_def)
    show ?thesis using c d unfolding l z2 by (simp add: zero_usage_def)
  qed
  ultimately show ?thesis using r w l by blast
qed



text \<open>
  Claim C6, which fails as stated. After the three sparse files have been written
  \<^verbatim>\<open>totalSize\<close> has wrapped around to \<open>1\<close> and \<^verbatim>\<open>FilesSizeBytesPeak\<close> is \<open>2 ^ 63 + 2\<close>.
  Truncating the three-byte file to length \<open>0\<close> succeeds, makes \<^verbatim>\<open>totalSize = 2 ^ 64 - 2\<close> and
  raises the recorded peak to that value.
\<close>

theorem truncate_raises_peak:
  "length (run accepting (new_pool 0 ()) (sparse_writes @ [CallTruncate 1 0])) = 7 \<and>
   size' (handles (final accepting (new_pool 0 ()) sparse_writes) ! 1) = 3 \<and>
   totalSize (fp (final accepting (new_pool 0 ()) sparse_writes)) = 1 \<and>
   FilesSizeBytesPeak (stats (fp (final accepting (new_pool 0 ()) sparse_writes)))
     = 9223372036854775810 \<and>
   size' (handles (final accepting (new_pool 0 ()) (sparse_writes @ [CallTruncate 1 0])) ! 1) = 0 \<and>
   totalSize (fp (final accepting (new_pool 0 ()) (sparse_writes @ [CallTruncate 1 0])))
     = 18446744073709551614 \<and>
   FilesSizeBytesPeak (stats (fp (final accepting (new_pool 0 ()) (sparse_writes @ [CallTruncate 1 0]))))
     = 18446744073709551614"
  by (simp add: sparse_writes_def run_defs)

text \<open>
  Claim C6, as amended. A \<^verbatim>\<open>Truncate\<close> that returns adds one to \<^verbatim>\<open>TruncatesCount\<close>, whatever
  the wrapped file answered. If the answer is no error, the handle's size becomes
  \<^verbatim>\<open>uint64(length)\<close>, no other handle changes, and \<^verbatim>\<open>totalSize\<close> loses the old size less
  the new one; if it is an error, the handles, \<^verbatim>\<open>totalSize\<close> and \<^verbatim>\<open>FilesSizeBytesPeak\<close> are
  as before. When the new length is smaller than the size and the heap was reached from
  a new pool by a run on whose heaps the live sizes always added up to less than
  \<open>2 ^ 64\<close>, \<^verbatim>\<open>totalSize\<close> drops by exactly the difference, as a number, and
  \<^verbatim>\<open>FilesSizeBytesPeak\<close> is unchanged.
\<close>

theorem truncate_bookkeeping:
  "Truncate I s f len = Inr (s', err) \<longrightarrow>
     TruncatesCount (stats (fp s')) = TruncatesCount (stats (fp s)) + 1 \<and>
     (\<exists>g w'. FileReadWriter (handles s ! f) = Some g \<and>
        inner_Truncate I (world s) g len = (w', err)) \<and>
     (err = None \<longrightarrow>
        size' (handles s' ! f) = uint64_of len \<and>
        handles s' = (handles s)[f := (handles s ! f)\<lparr>size' := uint64_of len\<rparr>] \<and>
        totalSize (fp s') = totalSize (fp s) - (size' (handles s ! f) - uint64_of len)) \<and>
     (err \<noteq> None \<longrightarrow>
        handles s' = handles s \<and> totalSize (fp s') = totalSize (fp s) \<and>
        FilesSizeBytesPeak (stats (fp s')) = FilesSizeBytesPeak (stats (fp s))) \<and>
     (err = None \<and> uint64_of len < size' (handles s ! f) \<and>
      (\<exists>w b cs. s = final I (new_pool w b) cs \<and>
         (\<forall>t \<in> set (trace I (new_pool w b) cs). fits t)) \<longrightarrow>
        unat (totalSize (fp s')) =
          unat (totalSize (fp s)) - (unat (size' (handles s ! f)) - unat (uint64_of len)) \<and>
        FilesSizeBytesPeak (stats (fp s')) = FilesSizeBytesPeak (stats (fp s)))"
proof
  assume tr: "Truncate I s f len = Inr (s', err)"
  from tr have lf: "f < length (handles s)" "live (handles s ! f)" by (elim Truncate_Inr; simp)+
  have a: "TruncatesCount (stats (fp s')) = TruncatesCount (stats (fp s)) + 1"
    using Truncate_counters [OF tr] by simp
  have b: "\<exists>g w'. FileReadWriter (handles s ! f) = Some g \<and>
        inner_Truncate I (world s) g len = (w', err)"
    by (rule Truncate_inner [OF tr])
  have ok: "handles s' = (handles s)[f := (handles s ! f)\<lparr>size' := uint64_of len\<rparr>] \<and>
      totalSize (fp s') = totalSize (fp s) - size' (handles s ! f) + uint64_of len \<and>
      FilesSizeBytesPeak (stats (fp s')) =
        (if FilesSizeBytesPeak (stats (fp s)) < totalSize (fp s) - size' (handles s ! f) + uint64_of len
         then totalSize (fp s) - size' (handles s ! f) + uint64_of len
         else FilesSizeBytesPeak (stats (fp s)))"
    if "err = None"
    using tr that
    by (elim Truncate_Inr)
      (simp add: updateSizeLocked_handles updateSizeLocked_totalSize updateSizeLocked_stats)
  have c: "size' (handles s' ! f) = uint64_of len \<and>
        handles s' = (handles s)[f := (handles s ! f)\<lparr>size' := uint64_of len\<rparr>] \<and>
        totalSize (fp s') = totalSize (fp s) - (size' (handles s ! f) - uint64_of len)"
    if "err = None"
    using ok [OF that] lf by simp
  have d: "handles s' = handles s \<and> totalSize (fp s') = totalSize (fp s) \<and>
        FilesSizeBytesPeak (stats (fp s')) = FilesSizeBytesPeak (stats (fp s))"
    if "err \<noteq> None"
    using tr that by (elim Truncate_Inr) auto
  have e: "unat (totalSize (fp s')) =
          unat (totalSize (fp s)) - (unat (size' (handles s ! f)) - unat (uint64_of len)) \<and>
        FilesSizeBytesPeak (stats (fp s')) = FilesSizeBytesPeak (stats (fp s))"
    if h: "err = None \<and> uint64_of len < size' (handles s ! f) \<and>
      (\<exists>w b cs. s = final I (new_pool w b) cs \<and>
         (\<forall>t \<in> set (trace I (new_pool w b) cs). fits t))"
  proof -
    from h obtain w b cs where "s = final I (new_pool w b) cs"
      "\<forall>t \<in> set (trace I (new_pool w b) cs). fits t" by blast
    then have inv: "inv_size s" "fits s" "totalSize (fp s) \<le> FilesSizeBytesPeak (stats (fp s))"
      using reached_fit [of s I w b cs] by simp_all
    have "unat (size' (handles s ! f)) \<le> unat (totalSize (fp s))"
      using live_member_le [OF lf] unat_totalSize [OF inv(1,2)] by simp
    then have le: "size' (handles s ! f) \<le> totalSize (fp s)" by (simp add: word_le_nat_alt)
    from h have lt: "len < size' (handles s ! f)" by simp
    note nw = shrink_no_wrap [OF lt le]
    have "totalSize (fp s) - size' (handles s ! f) + len \<le> FilesSizeBytesPeak (stats (fp s))"
      using nw(2) inv(3) by (rule order_trans)
    then have "\<not> FilesSizeBytesPeak (stats (fp s))
        < totalSize (fp s) - size' (handles s ! f) + uint64_of len"
      by (simp add: not_less)
    then show ?thesis using ok h nw(1) by simp
  qed
  show "TruncatesCount (stats (fp s')) = TruncatesCount (stats (fp s)) + 1 \<and>
     (\<exists>g w'. FileReadWriter (handles s ! f) = Some g \<and>
        inner_Truncate I (world s) g len = (w', err)) \<and>
     (err = None \<longrightarrow>
        size' (handles s' ! f) = uint64_of len \<and>
        handles s' = (handles s)[f := (handles s ! f)\<lparr>size' := uint64_of len\<rparr>] \<and>
        totalSize (fp s') = totalSize (fp s) - (size' (handles s ! f) - uint64_of len)) \<and>
     (err \<noteq> None \<longrightarrow>
        handles s' = handles s \<and> totalSize (fp s') = totalSize (fp s) \<and>
        FilesSizeBytesPeak (stats (fp s')) = FilesSizeBytesPeak (stats (fp s))) \<and>
     (err = None \<and> uint64_of len < size' (handles s ! f) \<and>
      (\<exists>w b cs. s = final I (new_pool w b) cs \<and>
         (\<forall>t \<in> set (trace I (new_pool w b) cs). fits t)) \<longrightarrow>
        unat (totalSize (fp s')) =
          unat (totalSize (fp s)) - (unat (size' (handles s ! f)) - unat (uint64_of len)) \<and>
        FilesSizeBytesPeak (stats (fp s')) = FilesSizeBytesPeak (stats (fp s)))"
    using a b c d e by blast
qed

text \<open>
  On the heap after the two writes of the scenario, truncating the first file from 100
  bytes to 10 succeeds, takes \<^verbatim>\<open>totalSize\<close> from 150 to 60 and leaves the peak at 150. A
  truncation that the wrapped file refuses is counted and changes no size.
\<close>

theorem truncate_bookkeeping_witness:
  "list_all fits (trace accepting (new_pool 0 ()) scenario_writes) \<and>
   size' (handles (final accepting (new_pool 0 ()) scenario_writes) ! 0) = 100 \<and>
   totalSize (fp (final accepting (new_pool 0 ()) scenario_writes)) = 150 \<and>
   FilesSizeBytesPeak (stats (fp (final accepting (new_pool 0 ()) scenario_writes))) = 150 \<and>
   (\<exists>s'. Truncate accepting (final accepting (new_pool 0 ()) scenario_writes) 0 10 = Inr (s', None) \<and>
      TruncatesCount (stats (fp s')) = 1 \<and> size' (handles s' ! 0) = 10 \<and>
      unat (totalSize (fp s')) = 60 \<and> FilesSizeBytesPeak (stats (fp s')) = 150) \<and>
   (\<exists>s'. Truncate scripted failing_heap 0 5 = Inr (s', Some (StatusError 13 ''disk failure'')) \<and>
      TruncatesCount (stats (fp s')) = 1 \<and> handles s' = handles failing_heap \<and>
      totalSize (fp s') = 0)"
proof -
  let ?S = "final accepting (new_pool 0 ()) scenario_writes"
  let ?e = "Some (StatusError 13 ''disk failure'')"
  have fit: "list_all fits (trace accepting (new_pool 0 ()) scenario_writes)"
    by (simp add: scenario_writes_def run_defs fits_def live_bytes_def live_def)
  then have reach: "\<exists>w b cs. ?S = final accepting (new_pool w b) cs \<and>
         (\<forall>t \<in> set (trace accepting (new_pool w b) cs). fits t)"
    by (intro exI [of _ 0] exI [of _ "()"] exI [of _ scenario_writes]) (simp add: list_all_iff)
  have S: "size' (handles ?S ! 0) = 100" "totalSize (fp ?S) = 150"
    "FilesSizeBytesPeak (stats (fp ?S)) = 150" "TruncatesCount (stats (fp ?S)) = 0"
    by (simp_all add: scenario_writes_def run_defs)
  obtain s1 where t1: "Truncate accepting ?S 0 10 = Inr (s1, None)"
    by (simp add: scenario_writes_def run_defs)
  obtain s2 where t2: "Truncate scripted failing_heap 0 5 = Inr (s2, ?e)"
    by (simp add: Truncate_def scripted_def failing_heap_def Let_def)
  have lt: "uint64_of 10 < size' (handles ?S ! 0)" by (simp add: S)
  have "TruncatesCount (stats (fp s1)) = TruncatesCount (stats (fp ?S)) + 1"
    and "size' (handles s1 ! 0) = uint64_of 10"
    and "unat (totalSize (fp s1)) =
      unat (totalSize (fp ?S)) - (unat (size' (handles ?S ! 0)) - unat (uint64_of 10 :: uint64))"
    and "FilesSizeBytesPeak (stats (fp s1)) = FilesSizeBytesPeak (stats (fp ?S))"
    using truncate_bookkeeping [of accepting ?S 0 10 s1 None] t1 reach lt by blast+
  then have "TruncatesCount (stats (fp s1)) = 1 \<and> size' (handles s1 ! 0) = 10 \<and>
      unat (totalSize (fp s1)) = 60 \<and> FilesSizeBytesPeak (stats (fp s1)) = 150"
    by (simp add: S)
  moreover have "TruncatesCount (stats (fp s2)) = 1 \<and> handles s2 = handles failing_heap \<and>
      totalSize (fp s2) = 0"
    using truncate_bookkeeping [of scripted failing_heap 0 5 s2 ?e] t2
    by (simp add: failing_heap_def zero_usage_def)
  ultimately show ?thesis using fit S t1 t2 by blast
qed

text \<open>
  Claim C7. A \<^verbatim>\<open>Close\<close> that returns has taken one from \<^verbatim>\<open>totalFiles\<close> and the handle's
  size from \<^verbatim>\<open>totalSize\<close>, has left every field of the statistics as it was, has made a
  live handle not live, and returns the error of the wrapped file's \<^verbatim>\<open>Close\<close>, whatever
  it is. Hence, once a run from a new pool has no live handle left, \<^verbatim>\<open>totalFiles\<close> and
  \<^verbatim>\<open>totalSize\<close> are zero; and a run of \<^verbatim>\<open>Close\<close> calls leaves the statistics as they were.
\<close>

theorem close_bookkeeping:
  "(Close I s f = Inr (s', err) \<longrightarrow>
      totalFiles (fp s') = totalFiles (fp s) - 1 \<and>
      totalSize (fp s') = totalSize (fp s) - size' (handles s ! f) \<and>
      stats (fp s') = stats (fp s) \<and>
      live (handles s ! f) \<and> \<not> live (handles s' ! f) \<and>
      Suc (live_count s') = live_count s \<and>
      (\<exists>g w'. FileReadWriter (handles s ! f) = Some g \<and>
         inner_Close I (world s) g = (w', err))) \<and>
   (live_count (final I (new_pool w b) cs) = 0 \<longrightarrow>
      totalFiles (fp (final I (new_pool w b) cs)) = 0 \<and>
      totalSize (fp (final I (new_pool w b) cs)) = 0) \<and>
   ((\<forall>c \<in> set cs'. is_close c) \<longrightarrow> stats (fp (final I s cs')) = stats (fp s))"
proof (intro conjI impI)
  assume cl: "Close I s f = Inr (s', err)"
  note c = Close_Inr [OF cl]
  show "totalFiles (fp s') = totalFiles (fp s) - 1"
    and "totalSize (fp s') = totalSize (fp s) - size' (handles s ! f)"
    and "stats (fp s') = stats (fp s)" and "live (handles s ! f)"
    using c by simp_all
  show "\<not> live (handles s' ! f)" using c by (simp add: live_def)
  show "Suc (live_count s') = live_count s"
    using c live_count_update_close [of f s "(handles s ! f)\<lparr>FileReadWriter := None, pool := None\<rparr>"]
    by (simp add: live_count_def live_def)
  show "\<exists>g w'. FileReadWriter (handles s ! f) = Some g \<and> inner_Close I (world s) g = (w', err)"
    by (rule Close_inner [OF cl])
next
  assume z: "live_count (final I (new_pool w b) cs) = 0"
  have "inv_count (final I (new_pool w b) cs) \<and> inv_size (final I (new_pool w b) cs)"
    using trace_inv [of I w b cs] final_in_trace [of I "new_pool w b" cs] by blast
  then show "totalFiles (fp (final I (new_pool w b) cs)) = 0"
    and "totalSize (fp (final I (new_pool w b) cs)) = 0"
    using no_live_zero z by blast+
next
  assume "\<forall>c \<in> set cs'. is_close c"
  then show "stats (fp (final I s cs')) = stats (fp s)" by (rule run_closes)
qed

text \<open>
  A \<^verbatim>\<open>Close\<close> that the wrapped file fails is accounted all the same; after the scenario
  no handle is live and both totals are zero; the two \<^verbatim>\<open>Close\<close> calls of the scenario
  leave the statistics of the heap before them.
\<close>

theorem close_bookkeeping_witness:
  "(\<exists>s'. Close scripted failing_heap 0 = Inr (s', Some (StatusError 13 ''disk failure'')) \<and>
      totalFiles (fp failing_heap) = 1 \<and> totalFiles (fp s') = 0 \<and>
      stats (fp s') = stats (fp failing_heap) \<and> live_count s' = 0) \<and>
   live_count (final accepting (new_pool 0 ()) scenario) = 0 \<and>
   totalFiles (fp (final accepting (new_pool 0 ()) scenario)) = 0 \<and>
   totalSize (fp (final accepting (new_pool 0 ()) scenario)) = 0 \<and>
   list_all is_close [CallClose 0, CallClose 1] \<and>
   stats (fp (final accepting (final accepting (new_pool 0 ()) (scenario_writes @ [CallTruncate 0 10]))
      [CallClose 0, CallClose 1])) =
   stats (fp (final accepting (new_pool 0 ()) (scenario_writes @ [CallTruncate 0 10])))"
proof -
  let ?e = "Some (StatusError 13 ''disk failure'')"
  let ?T = "final accepting (new_pool 0 ()) (scenario_writes @ [CallTruncate 0 10])"
  obtain s1 where c1: "Close scripted failing_heap 0 = Inr (s1, ?e)"
    by (simp add: Close_def scripted_def failing_heap_def Let_def)
  have lc: "live_count failing_heap = 1" "totalFiles (fp failing_heap) = 1"
    by (simp_all add: failing_heap_def live_count_def live_def)
  have z: "live_count (final accepting (new_pool 0 ()) scenario) = 0"
    by (simp add: scenario_def scenario_writes_def run_defs live_count_def live_def)
  have cls: "\<forall>c \<in> set [CallClose 0, CallClose 1]. is_close c" by simp
  have "totalFiles (fp s1) = 0 \<and> stats (fp s1) = stats (fp failing_heap) \<and> live_count s1 = 0"
    using close_bookkeeping [of scripted failing_heap 0 s1 ?e] c1 lc by simp
  moreover have "totalFiles (fp (final accepting (new_pool 0 ()) scenario)) = 0 \<and>
      totalSize (fp (final accepting (new_pool 0 ()) scenario)) = 0"
    using close_bookkeeping [of accepting _ _ _ _ 0 "()" scenario] z by blast
  moreover have "stats (fp (final accepting ?T [CallClose 0, CallClose 1])) = stats (fp ?T)"
    using close_bookkeeping [of accepting ?T _ _ _ _ _ _ "[CallClose 0, CallClose 1]"] cls by blast
  ultimately show ?thesis using c1 lc z by simp
qed

text \<open>
  Claim C8. When the wrapped pool's \<^verbatim>\<open>NewFile\<close> returns an error, the pool's \<^verbatim>\<open>NewFile\<close>
  returns no handle and that error, and nothing of the pool or of its handles changes.
  When it succeeds, \<^verbatim>\<open>FilesCreated\<close> and \<^verbatim>\<open>totalFiles\<close> grow by one, \<^verbatim>\<open>FilesCountPeak\<close> is
  raised to \<^verbatim>\<open>totalFiles\<close> if it was smaller, no other field changes, and the new handle
  has size zero.
\<close>

theorem NewFile_bookkeeping:
  "(base_NewFile I (world s) (base (fp s)) = (w', f, Some e) \<longrightarrow>
      NewFile I s = (s\<lparr>world := w'\<rparr>, None, Some e)) \<and>
   (base_NewFile I (world s) (base (fp s)) = (w', f, None) \<longrightarrow>
      (\<exists>s'. NewFile I s = (s', Some (length (handles s)), None) \<and>
        FilesCreated (stats (fp s')) = FilesCreated (stats (fp s)) + 1 \<and>
        totalFiles (fp s') = totalFiles (fp s) + 1 \<and>
        FilesCountPeak (stats (fp s')) =
          (if FilesCountPeak (stats (fp s)) < totalFiles (fp s')
           then totalFiles (fp s') else FilesCountPeak (stats (fp s))) \<and>
        handles s' = handles s @ [\<lparr>FileReadWriter = f, pool = Some (), size' = 0\<rparr>] \<and>
        size' (handles s' ! length (handles s)) = 0 \<and>
        stats (fp s') = (stats (fp s))
          \<lparr>FilesCreated := FilesCreated (stats (fp s')),
           FilesCountPeak := FilesCountPeak (stats (fp s'))\<rparr> \<and>
        totalSize (fp s') = totalSize (fp s) \<and> base (fp s') = base (fp s) \<and> world s' = w'))"
  by (auto simp: NewFile_def Let_def)

text \<open>A creation that fails on a pool with one handle, and one that succeeds on a new pool.\<close>

theorem NewFile_bookkeeping_witness:
  "base_NewFile scripted (world failing_heap) (base (fp failing_heap)) =
     ([], None, Some (StatusError 13 ''disk failure'')) \<and>
   NewFile scripted failing_heap =
     (failing_heap\<lparr>world := []\<rparr>, None, Some (StatusError 13 ''disk failure'')) \<and>
   base_NewFile accepting (world (new_pool 0 ())) (base (fp (new_pool 0 ()))) = (1, Some 0, None) \<and>
   (\<exists>s'. NewFile accepting (new_pool 0 ()) = (s', Some 0, None) \<and>
      FilesCreated (stats (fp s')) = 1 \<and> totalFiles (fp s') = 1 \<and>
      FilesCountPeak (stats (fp s')) = 1 \<and>
      handles s' = [\<lparr>FileReadWriter = Some 0, pool = Some (), size' = 0\<rparr>])"
proof -
  have a: "base_NewFile scripted (world failing_heap) (base (fp failing_heap)) =
     ([], None, Some (StatusError 13 ''disk failure''))"
    by (simp add: scripted_def failing_heap_def)
  have b: "base_NewFile accepting (world (new_pool 0 ())) (base (fp (new_pool 0 ()))) = (1, Some 0, None)"
    by (simp add: accepting_def new_pool_def)
  show ?thesis
    using a b NewFile_bookkeeping [of scripted failing_heap "[]" None "StatusError 13 ''disk failure''"]
      NewFile_bookkeeping [of accepting "new_pool 0 ()" 1 "Some 0"]
    by (auto simp: new_pool_def zero_usage_def)
qed

text \<open>
  Claim C9. From a new pool over files that accept every byte: after two handles are
  created and 100 bytes written to the first and 50 to the second, both at offset 0,
  \<^verbatim>\<open>totalSize\<close> is 150; after the first is truncated to 10 it is 60; after both are
  closed, every call having returned, \<^verbatim>\<open>WritesCount = 2\<close>, \<^verbatim>\<open>WritesSizeBytes = 150\<close>,
  \<^verbatim>\<open>TruncatesCount = 1\<close>, \<^verbatim>\<open>FilesCountPeak = 2\<close>, \<^verbatim>\<open>FilesSizeBytesPeak\<close> is at least 150 and
  \<^verbatim>\<open>totalFiles = 0\<close>.
\<close>

theorem scenario_statistics:
  "totalSize (fp (final accepting (new_pool 0 ()) scenario_writes)) = 150 \<and>
   totalSize (fp (final accepting (new_pool 0 ()) (scenario_writes @ [CallTruncate 0 10]))) = 60 \<and>
   length (run accepting (new_pool 0 ()) scenario) = length scenario \<and>
   WritesCount (stats (fp (final accepting (new_pool 0 ()) scenario))) = 2 \<and>
   WritesSizeBytes (stats (fp (final accepting (new_pool 0 ()) scenario))) = 150 \<and>
   TruncatesCount (stats (fp (final accepting (new_pool 0 ()) scenario))) = 1 \<and>
   FilesCountPeak (stats (fp (final accepting (new_pool 0 ()) scenario))) = 2 \<and>
   150 \<le> FilesSizeBytesPeak (stats (fp (final accepting (new_pool 0 ()) scenario))) \<and>
   totalFiles (fp (final accepting (new_pool 0 ()) scenario)) = 0"
  by (simp add: scenario_def scenario_writes_def run_defs)

end
